theory Spec2Isabelle
  imports Complex_Main "HOL-Library.AList" "HOL-Library.Char_ord" "HOL-Library.List_Lexorder"
    "HOL-Library.Product_Lexorder"
begin

section \<open>vcHMM: a shallow embedding of the variant caller\<close>

text \<open>
  The development follows \<^verbatim>\<open>vcHMM.py\<close>, \<^verbatim>\<open>get_sam_reads.py\<close> and
  \<^verbatim>\<open>variant_calling_output.py\<close>. Python lists are HOL lists, Python exceptions are
  values of \<open>error\<close> on the left of a sum, dictionaries that are iterated in insertion
  order are association lists, and text written with \<^verbatim>\<open>print\<close> is not modelled.
\<close>

subsection \<open>Exceptions and indexing\<close>

datatype error = IndexError | ValueError | TypeError | ZeroDivisionError | UnboundLocalError

definition bindE :: "error + 'a \<Rightarrow> ('a \<Rightarrow> error + 'b) \<Rightarrow> error + 'b" where
  "bindE m f = (case m of Inl e \<Rightarrow> Inl e | Inr x \<Rightarrow> f x)"

text \<open>\<^verbatim>\<open>xs[i]\<close> with a non-negative index.\<close>

definition idx :: "'a list \<Rightarrow> nat \<Rightarrow> error + 'a" where
  "idx xs i = (if i < length xs then Inr (xs ! i) else Inl IndexError)"

text \<open>\<^verbatim>\<open>xs[i]\<close> with any integer index: a negative index counts from the end.\<close>

definition pyidx :: "'a list \<Rightarrow> int \<Rightarrow> error + 'a" where
  "pyidx xs i =
     (if 0 \<le> i then idx xs (nat i)
      else if - int (length xs) \<le> i then Inr (xs ! nat (int (length xs) + i))
      else Inl IndexError)"

text \<open>\<^verbatim>\<open>for i in idxs: row[i] = x\<close> on a list that is long enough.\<close>

definition assign_all :: "nat list \<Rightarrow> 'a \<Rightarrow> 'a list \<Rightarrow> 'a list" where
  "assign_all idxs x row = fold (\<lambda>i r. r[i := x]) idxs row"

subsection \<open>Transition Matrix Builder\<close>

text \<open>
  \<^verbatim>\<open>create_row_transition_matrix\<close>. The four reads of the class vector raise
  \<open>IndexError\<close> on a vector shorter than four; nothing else in the function can fail.
  The configuration values are probabilities, modelled as exact reals.
\<close>

definition create_row_transition_matrix :: "real list \<Rightarrow> real \<Rightarrow> error + real list" where
  "create_row_transition_matrix v hetrate =
     (if length v < 4 then Inl IndexError
      else
        let row = replicate 30 (- 1);
            row = row[29 := v ! 3 * hetrate / 32];
            row = row[0 := v ! 0 * (1 - hetrate) * (1 - row ! 29)];
            row = assign_all [1 ..< 3 + 1] (v ! 1 * (1 - hetrate) / 3 * (1 - row ! 29)) row;
            row = assign_all [4 ..< 6 + 1]
                    ((v ! 0 + v ! 1 / 3) * hetrate / 4 * (1 - row ! 29)) row;
            row = row[7 := (v ! 0 + v ! 2) * hetrate / 4 * (1 - row ! 29)];
            row = assign_all [8, 9, 11] (v ! 1 * hetrate / 6 * (1 - row ! 29)) row;
            row = assign_all [10, 12, 13]
                    ((v ! 1 / 3 + v ! 2) * hetrate / 4 * (1 - row ! 29)) row;
            row = row[14 := v ! 2 * (1 - hetrate) * (1 - row ! 29)];
            row = assign_all [15 ..< 18 + 1] (v ! 3 * (1 - hetrate) / 4 * (1 - row ! 29)) row;
            row = assign_all [19, 20, 21, 23, 24, 26] (v ! 3 * hetrate / 8 * (1 - row ! 29)) row;
            row = assign_all [22, 25, 27, 28] (v ! 3 * hetrate / 16 * (1 - row ! 29)) row
        in Inr row)"

text \<open>
  \<^verbatim>\<open>create_transition_matrix\<close>. The source starts from thirty placeholders and
  assigns every one of the thirty rows; the placeholder is the empty row here. Rows that
  the source aliases to one list object are never written again, so copies model them.
\<close>

definition create_transition_matrix :: "real list list \<Rightarrow> real \<Rightarrow> error + real list list" where
  "create_transition_matrix pre_transition_matrix hetrate =
     bindE (idx pre_transition_matrix 0) (\<lambda>p0.
     bindE (create_row_transition_matrix p0 hetrate) (\<lambda>r0.
     bindE (idx pre_transition_matrix 1) (\<lambda>p1.
     bindE (create_row_transition_matrix p1 hetrate) (\<lambda>r1.
     bindE (idx pre_transition_matrix 2) (\<lambda>p2.
     bindE (create_row_transition_matrix p2 hetrate) (\<lambda>r14.
     bindE (idx pre_transition_matrix 3) (\<lambda>p3.
     bindE (create_row_transition_matrix p3 hetrate) (\<lambda>r15.
       let tm = replicate 30 [];
           tm = tm[0 := r0];
           tm = tm[1 := r1];
           tm = assign_all [2, 3, 4, 5, 6, 8, 9, 11] (tm ! 1) tm;
           tm = tm[14 := r14];
           tm = assign_all [7, 10, 12, 13]
                  (map (\<lambda>j. (tm ! 1 ! j + tm ! 14 ! j) / 2) [0 ..< length (tm ! 1)]) tm;
           tm = tm[15 := r15];
           tm = assign_all [16 ..< 29] (tm ! 15) tm;
           tm = tm[29 := map (\<lambda>i. 1 / 30) [0 ..< 30]]
       in Inr tm))))))))"

text \<open>The two parameter sets of \<^verbatim>\<open>main\<close>; the run uses the simulated pair.\<close>

definition pre_transition_matrix_simulated :: "real list list" where
  "pre_transition_matrix_simulated =
     [[0.988, 0.008, 0.002, 0.002],
      [0.53, 0.45, 0.01, 0.01],
      [0.70, 0.15, 0.15, 0.0],
      [0.70, 0.15, 0.0, 0.15]]"

definition hetrate_simulated :: real where
  "hetrate_simulated = 0.01"

subsection \<open>Reads\<close>

text \<open>
  A read is the six-element list \<^verbatim>\<open>[start, name, sequence, cigar, mapq, qualities]\<close>
  of \<^verbatim>\<open>get_sam\<close>. The alignment operations are pairs (operation code, length) of
  unsigned numbers, or \<^verbatim>\<open>None\<close> for an unmapped read. A quality is a number or,
  once a gap has been spliced in, the placeholder \<^verbatim>\<open>'-'\<close>.
\<close>

datatype qual = QGap | QNum real

record read =
  r_start :: int
  r_name :: string
  r_seq :: string
  r_cigar :: "(nat \<times> nat) list option"
  r_mapq :: real
  r_qual :: "qual list"

text \<open>Slices \<^verbatim>\<open>xs[:k]\<close> and \<^verbatim>\<open>xs[k:]\<close> with an integer bound.\<close>

definition py_take :: "int \<Rightarrow> 'a list \<Rightarrow> 'a list" where
  "py_take k xs = (if 0 \<le> k then take (nat k) xs else take (length xs - nat (- k)) xs)"

definition py_drop :: "int \<Rightarrow> 'a list \<Rightarrow> 'a list" where
  "py_drop k xs = (if 0 \<le> k then drop (nat k) xs else drop (length xs - nat (- k)) xs)"

text \<open>\<^verbatim>\<open>xs[:-n]\<close> for an unsigned \<open>n\<close>: the empty list when \<open>n\<close> is zero.\<close>

definition drop_last :: "nat \<Rightarrow> 'a list \<Rightarrow> 'a list" where
  "drop_last n xs = (if n = 0 then [] else take (length xs - n) xs)"

definition count_gaps :: "string \<Rightarrow> nat" where
  "count_gaps s = length (filter (\<lambda>c. c = CHR ''-'') s)"

subsection \<open>Alignment Normalizer\<close>

text \<open>
  \<^verbatim>\<open>get_cigar\<close>, the same text in \<^verbatim>\<open>vcHMM.py\<close> and \<^verbatim>\<open>get_sam_reads.py\<close>.
  The inner loop runs over the operation list the read had when the loop started; the
  assignments to \<^verbatim>\<open>read\<close> inside the loop build new lists. Its local variables are
  the fields of \<open>cigar_state\<close>; \<^verbatim>\<open>readnames\<close> does not change while one read is
  processed.
\<close>

record cigar_state =
  cur :: read
  soft_at_beginning :: bool
  hard_at_beginning :: bool
  same_read :: bool
  nr_insertions :: nat
  pos :: nat
  insertions :: "(int \<times> nat \<times> string) list"

definition record_insertion :: "nat \<Rightarrow> cigar_state \<Rightarrow> cigar_state" where
  "record_insertion n st =
     (if same_read st
      then st\<lparr>same_read := False, nr_insertions := n,
              insertions := insertions st @ [(r_start (cur st) + int (pos st), n, r_name (cur st))]\<rparr>
      else st\<lparr>insertions := insertions st @
              [(r_start (cur st) + int (pos st) - int (nr_insertions st), n, r_name (cur st))]\<rparr>)"

definition cigar_op :: "string list \<Rightarrow> nat \<times> nat \<Rightarrow> cigar_state \<Rightarrow> cigar_state" where
  "cigar_op readnames operation st =
     (let code = fst operation; n = snd operation; rd = cur st;
          st' =
            (if code = 4 then
               (if soft_at_beginning st
                then st\<lparr>soft_at_beginning := False,
                        cur := rd\<lparr>r_start := r_start rd + int n, r_seq := drop n (r_seq rd),
                                  r_cigar := map_option (drop 1) (r_cigar rd)\<rparr>\<rparr>
                else st\<lparr>cur := rd\<lparr>r_seq := drop_last n (r_seq rd),
                                  r_cigar := map_option butlast (r_cigar rd)\<rparr>\<rparr>)
             else if code = 5 then
               (if hard_at_beginning st
                then st\<lparr>hard_at_beginning := False,
                        cur := rd\<lparr>r_cigar := map_option (drop 1) (r_cigar rd)\<rparr>\<rparr>
                else st\<lparr>cur := rd\<lparr>r_cigar := map_option butlast (r_cigar rd)\<rparr>\<rparr>)
             else if code = 1 then
               (if r_name rd \<notin> set readnames then record_insertion n st
                else record_insertion n (st\<lparr>cur := rd\<lparr>r_name := r_name rd @ ''b''\<rparr>\<rparr>))
             else if code = 2 then
               (let gaps_before = count_gaps (take (pos st) (r_seq rd));
                    k = pos st + gaps_before
                in st\<lparr>cur := rd\<lparr>
                     r_seq := take k (r_seq rd) @ replicate n (CHR ''-'') @ drop k (r_seq rd),
                     r_qual := take k (r_qual rd) @ replicate n QGap @ drop k (r_qual rd)\<rparr>\<rparr>)
             else st)
      in st'\<lparr>pos := pos st' + n\<rparr>)"

text \<open>One iteration of the outer loop; the state is (newsam, insertions, readnames).\<close>

definition get_cigar_read ::
  "read \<Rightarrow> read list \<times> (int \<times> nat \<times> string) list \<times> string list
        \<Rightarrow> read list \<times> (int \<times> nat \<times> string) list \<times> string list" where
  "get_cigar_read rd acc =
     (case acc of (newsam, ins, readnames) \<Rightarrow>
        (case r_cigar rd of
           None \<Rightarrow> acc
         | Some ops \<Rightarrow>
             let st = fold (cigar_op readnames) ops
                        \<lparr>cur = rd, soft_at_beginning = True, hard_at_beginning = True,
                         same_read = True, nr_insertions = 0, pos = 0, insertions = ins\<rparr>
             in (newsam @ [cur st], insertions st, readnames @ [r_name (cur st)])))"

definition get_cigar :: "read list \<Rightarrow> read list \<times> (int \<times> nat \<times> string) list" where
  "get_cigar sam = (case fold get_cigar_read sam ([], [], []) of
                      (newsam, ins, readnames) \<Rightarrow> (newsam, ins))"

subsection \<open>Insertion Coalescer\<close>

text \<open>
  A dictionary keyed by (coordinate, length) that is iterated in insertion order: an
  association list. Assigning to a key that is present keeps its place; a new key goes
  to the end.
\<close>

type_synonym ins_dict = "((int \<times> nat) \<times> string list) list"

definition dict_append :: "int \<times> nat \<Rightarrow> string \<Rightarrow> ins_dict \<Rightarrow> ins_dict" where
  "dict_append k v d =
     (case map_of d k of
        Some vs \<Rightarrow> AList.update k (vs @ [v]) d
      | None \<Rightarrow> d @ [(k, [v])])"

definition del_duplicate_ins :: "(int \<times> nat \<times> string) list \<Rightarrow> ins_dict" where
  "del_duplicate_ins ins =
     fold (\<lambda>ins d. dict_append (fst ins, fst (snd ins)) (snd (snd ins)) d)
       (sort ins) []"

subsection \<open>Coordinate Realigner\<close>

text \<open>\<^verbatim>\<open>update_insertions\<close>: the loop state is (temp, upd\_inserts).\<close>

definition update_insertions_step ::
  "(int \<times> nat) \<times> string list \<Rightarrow> nat \<times> ins_dict \<Rightarrow> nat \<times> ins_dict" where
  "update_insertions_step entry acc =
     (case acc of (temp, upd_inserts) \<Rightarrow>
        let insert0 = fst (fst entry) + int temp; insert1 = snd (fst entry)
        in (temp + insert1, AList.update (insert0, insert1) (snd entry) upd_inserts))"

definition update_insertions :: "ins_dict \<Rightarrow> ins_dict" where
  "update_insertions ins = snd (fold update_insertions_step ins (0, []))"

definition shift_start :: "(int \<times> nat) \<Rightarrow> read \<Rightarrow> read" where
  "shift_start ins rd =
     (if r_start rd > fst ins then rd\<lparr>r_start := r_start rd + int (snd ins)\<rparr> else rd)"

definition update_startpos :: "read list \<Rightarrow> ins_dict \<Rightarrow> read list" where
  "update_startpos sam ins = map (\<lambda>rd. fold shift_start (map fst ins) rd) sam"

definition splice_gaps :: "(int \<times> nat) \<times> string list \<Rightarrow> read \<Rightarrow> read" where
  "splice_gaps entry rd =
     (let c = fst (fst entry); n = snd (fst entry) in
      if r_name rd \<notin> set (snd entry) \<and> c \<ge> r_start rd
         \<and> c - r_start rd \<le> int (length (r_seq rd))
      then
        let off = nat (c - r_start rd);
            gaps_before = count_gaps (take off (r_seq rd));
            k = off + gaps_before
        in rd\<lparr>r_seq := take k (r_seq rd) @ replicate n (CHR ''-'') @ drop k (r_seq rd),
              r_qual := take k (r_qual rd) @ replicate n QGap @ drop k (r_qual rd)\<rparr>
      else rd)"

definition update_reads :: "read list \<Rightarrow> ins_dict \<Rightarrow> read list" where
  "update_reads sam ins = map (\<lambda>rd. fold splice_gaps ins rd) sam"

definition update_ref :: "string \<Rightarrow> ins_dict \<Rightarrow> string" where
  "update_ref ref_seq ins =
     fold (\<lambda>entry r. py_take (fst (fst entry)) r @ replicate (snd (fst entry)) (CHR ''-'')
                        @ py_drop (fst (fst entry)) r) ins ref_seq"

text \<open>
  The start-position rule in the words of the specification: going through the events in
  order, an event whose coordinate is strictly below the running start offset adds its
  length to the offset.
\<close>

fun spec_running_start :: "int \<Rightarrow> (int \<times> nat) list \<Rightarrow> int" where
  "spec_running_start s [] = s"
| "spec_running_start s (e # es) =
     spec_running_start (if fst e < s then s + int (snd e) else s) es"

text \<open>The events of a dictionary with every coordinate moved by the lengths before it.\<close>

fun shifted :: "nat \<Rightarrow> ins_dict \<Rightarrow> ins_dict" where
  "shifted t [] = []"
| "shifted t (e # es) = ((fst (fst e) + int t, snd (fst e)), snd e) # shifted (t + snd (fst e)) es"

subsection \<open>Pileup Builder\<close>

text \<open>
  \<^verbatim>\<open>get_pileup\<close>. The base is read at an offset inside the sequence; the quality
  list is read at the same offset and raises when it is shorter than the sequence.
\<close>

fun get_pileup :: "read list \<Rightarrow> nat \<Rightarrow> error + (string \<times> qual list \<times> real list)" where
  "get_pileup [] p = Inr ([], [], [])"
| "get_pileup (rd # rest) p =
     (if r_start rd \<le> int p \<and> r_start rd + int (length (r_seq rd)) > int p
      then bindE (idx (r_qual rd) (nat (int p - r_start rd))) (\<lambda>q.
           bindE (get_pileup rest p) (\<lambda>(bases, qualities, mapping_qualities).
             Inr (r_seq rd ! nat (int p - r_start rd) # bases, q # qualities,
                  r_mapq rd # mapping_qualities)))
      else get_pileup rest p)"

subsection \<open>Floating-point values\<close>

text \<open>
  The numbers of the emission matrix and of the decoder are floating-point values. They
  are modelled as exact reals together with the three special values that the code
  produces and tests for: positive and negative infinity and not-a-number. Rounding,
  overflow and underflow are not modelled. The operations follow IEEE 754 on the special
  values; numpy warns on them and does not raise.
\<close>

datatype fl = Fin real | PInf | NInf | NaN

fun fl_neg :: "fl \<Rightarrow> fl" where
  "fl_neg (Fin a) = Fin (- a)"
| "fl_neg PInf = NInf"
| "fl_neg NInf = PInf"
| "fl_neg NaN = NaN"

fun fl_add :: "fl \<Rightarrow> fl \<Rightarrow> fl" where
  "fl_add (Fin a) (Fin b) = Fin (a + b)"
| "fl_add NaN y = NaN"
| "fl_add x NaN = NaN"
| "fl_add PInf NInf = NaN"
| "fl_add NInf PInf = NaN"
| "fl_add PInf y = PInf"
| "fl_add x PInf = PInf"
| "fl_add NInf y = NInf"
| "fl_add x NInf = NInf"

definition fl_sub :: "fl \<Rightarrow> fl \<Rightarrow> fl" where
  "fl_sub x y = fl_add x (fl_neg y)"

text \<open>An infinity with the sign of a real factor; not-a-number for the factor zero.\<close>

definition signed_inf :: "bool \<Rightarrow> real \<Rightarrow> fl" where
  "signed_inf positive b =
     (if b = 0 then NaN else if (0 < b) = positive then PInf else NInf)"

fun fl_mul :: "fl \<Rightarrow> fl \<Rightarrow> fl" where
  "fl_mul (Fin a) (Fin b) = Fin (a * b)"
| "fl_mul NaN y = NaN"
| "fl_mul x NaN = NaN"
| "fl_mul PInf (Fin b) = signed_inf True b"
| "fl_mul NInf (Fin b) = signed_inf False b"
| "fl_mul (Fin a) PInf = signed_inf True a"
| "fl_mul (Fin a) NInf = signed_inf False a"
| "fl_mul PInf PInf = PInf"
| "fl_mul NInf NInf = PInf"
| "fl_mul PInf NInf = NInf"
| "fl_mul NInf PInf = NInf"

text \<open>
  Division. The only divisor of the decoder is a sum that starts at zero, so a zero
  divisor is the positive zero.
\<close>

fun fl_div :: "fl \<Rightarrow> fl \<Rightarrow> fl" where
  "fl_div (Fin a) (Fin b) = (if b = 0 then signed_inf True a else Fin (a / b))"
| "fl_div NaN y = NaN"
| "fl_div x NaN = NaN"
| "fl_div (Fin a) PInf = Fin 0"
| "fl_div (Fin a) NInf = Fin 0"
| "fl_div PInf (Fin b) = (if 0 \<le> b then PInf else NInf)"
| "fl_div NInf (Fin b) = (if 0 \<le> b then NInf else PInf)"
| "fl_div PInf y = NaN"
| "fl_div NInf y = NaN"

fun fl_exp :: "fl \<Rightarrow> fl" where
  "fl_exp (Fin a) = Fin (exp a)"
| "fl_exp PInf = PInf"
| "fl_exp NInf = Fin 0"
| "fl_exp NaN = NaN"

text \<open>\<^verbatim>\<open>np.log\<close> and \<^verbatim>\<open>np.log10\<close>.\<close>

fun fl_log :: "fl \<Rightarrow> fl" where
  "fl_log (Fin a) = (if 0 < a then Fin (ln a) else if a = 0 then NInf else NaN)"
| "fl_log PInf = PInf"
| "fl_log NInf = NaN"
| "fl_log NaN = NaN"

fun fl_log10 :: "fl \<Rightarrow> fl" where
  "fl_log10 (Fin a) = (if 0 < a then Fin (log 10 a) else if a = 0 then NInf else NaN)"
| "fl_log10 PInf = PInf"
| "fl_log10 NInf = NaN"
| "fl_log10 NaN = NaN"

text \<open>Comparison: not-a-number is neither below nor equal to anything.\<close>

fun fl_less :: "fl \<Rightarrow> fl \<Rightarrow> bool" where
  "fl_less NaN y = False"
| "fl_less x NaN = False"
| "fl_less (Fin a) (Fin b) = (a < b)"
| "fl_less x NInf = False"
| "fl_less NInf y = True"
| "fl_less PInf y = False"
| "fl_less x PInf = True"

definition fl_eq :: "fl \<Rightarrow> fl \<Rightarrow> bool" where
  "fl_eq x y = (x \<noteq> NaN \<and> y \<noteq> NaN \<and> x = y)"

text \<open>\<^verbatim>\<open>np.max\<close> keeps a not-a-number; it raises on an empty list.\<close>

definition fl_max2 :: "fl \<Rightarrow> fl \<Rightarrow> fl" where
  "fl_max2 x y = (if x = NaN \<or> y = NaN then NaN else if fl_less x y then y else x)"

fun np_max :: "fl list \<Rightarrow> error + fl" where
  "np_max [] = Inl ValueError"
| "np_max (x # xs) = Inr (fold (\<lambda>y m. fl_max2 m y) xs x)"

text \<open>\<^verbatim>\<open>xs.index(m)\<close>: the first place whose value equals \<open>m\<close>.\<close>

fun index_from :: "fl \<Rightarrow> fl list \<Rightarrow> nat \<Rightarrow> error + nat" where
  "index_from m [] k = Inl ValueError"
| "index_from m (x # xs) k = (if fl_eq x m then Inr k else index_from m xs (Suc k))"

text \<open>\<^verbatim>\<open>xs.index(np.max(xs))\<close>.\<close>

definition argmax_index :: "fl list \<Rightarrow> error + nat" where
  "argmax_index xs = bindE (np_max xs) (\<lambda>m. index_from m xs 0)"

definition fl_sum :: "fl list \<Rightarrow> fl" where
  "fl_sum xs = fold (\<lambda>x s. fl_add s x) xs (Fin 0)"

text \<open>
  \<^verbatim>\<open>scipy.special.logsumexp\<close>: the maximum is subtracted before exponentiating, and
  a maximum that is not finite is replaced by zero.
\<close>

definition logsumexp :: "fl list \<Rightarrow> error + fl" where
  "logsumexp a =
     bindE (np_max a) (\<lambda>m.
       let a_max = (case m of Fin x \<Rightarrow> Fin x | PInf \<Rightarrow> Fin 0 | NInf \<Rightarrow> Fin 0 | NaN \<Rightarrow> Fin 0);
           tmp = map (\<lambda>x. fl_exp (fl_sub x a_max)) a;
           s = fl_sum tmp
       in Inr (fl_add (fl_log s) a_max))"

fun mapE :: "('a \<Rightarrow> error + 'b) \<Rightarrow> 'a list \<Rightarrow> error + 'b list" where
  "mapE f [] = Inr []"
| "mapE f (x # xs) = bindE (f x) (\<lambda>y. bindE (mapE f xs) (\<lambda>ys. Inr (y # ys)))"

subsection \<open>Emission Matrix Builder\<close>

text \<open>
  A column of a matrix is the no-data marker \<^verbatim>\<open>-1\<close> or a list. An entry of an
  emission column is the string \<^verbatim>\<open>"NaN"\<close> or a number.
\<close>

datatype 'a col = Sentinel | Col "'a list"

datatype eentry = ENaN | EVal fl

text \<open>The genotype tables; a genotype is a pair of one-character strings.\<close>

definition vector_A :: "(char \<times> char) list" where
  "vector_A =
     [(CHR ''A'', CHR ''A''), (CHR ''C'', CHR ''C''), (CHR ''G'', CHR ''G''),
      (CHR ''T'', CHR ''T''), (CHR ''A'', CHR ''C''), (CHR ''A'', CHR ''G''),
      (CHR ''A'', CHR ''T''), (CHR ''A'', CHR ''-''), (CHR ''C'', CHR ''G''),
      (CHR ''C'', CHR ''T''), (CHR ''C'', CHR ''-''), (CHR ''G'', CHR ''T''),
      (CHR ''G'', CHR ''-''), (CHR ''T'', CHR ''-''), (CHR ''-'', CHR ''-'')]"

definition vector_C :: "(char \<times> char) list" where
  "vector_C =
     [(CHR ''C'', CHR ''C''), (CHR ''A'', CHR ''A''), (CHR ''G'', CHR ''G''),
      (CHR ''T'', CHR ''T''), (CHR ''A'', CHR ''C''), (CHR ''C'', CHR ''G''),
      (CHR ''C'', CHR ''T''), (CHR ''C'', CHR ''-''), (CHR ''A'', CHR ''G''),
      (CHR ''A'', CHR ''T''), (CHR ''A'', CHR ''-''), (CHR ''G'', CHR ''T''),
      (CHR ''G'', CHR ''-''), (CHR ''T'', CHR ''-''), (CHR ''-'', CHR ''-'')]"

definition vector_G :: "(char \<times> char) list" where
  "vector_G =
     [(CHR ''G'', CHR ''G''), (CHR ''A'', CHR ''A''), (CHR ''C'', CHR ''C''),
      (CHR ''T'', CHR ''T''), (CHR ''A'', CHR ''G''), (CHR ''C'', CHR ''G''),
      (CHR ''G'', CHR ''T''), (CHR ''G'', CHR ''-''), (CHR ''A'', CHR ''C''),
      (CHR ''A'', CHR ''T''), (CHR ''A'', CHR ''-''), (CHR ''C'', CHR ''T''),
      (CHR ''C'', CHR ''-''), (CHR ''T'', CHR ''-''), (CHR ''-'', CHR ''-'')]"

definition vector_T :: "(char \<times> char) list" where
  "vector_T =
     [(CHR ''T'', CHR ''T''), (CHR ''A'', CHR ''A''), (CHR ''C'', CHR ''C''),
      (CHR ''G'', CHR ''G''), (CHR ''A'', CHR ''T''), (CHR ''C'', CHR ''T''),
      (CHR ''G'', CHR ''T''), (CHR ''T'', CHR ''-''), (CHR ''A'', CHR ''C''),
      (CHR ''A'', CHR ''G''), (CHR ''A'', CHR ''-''), (CHR ''C'', CHR ''G''),
      (CHR ''C'', CHR ''-''), (CHR ''G'', CHR ''-''), (CHR ''-'', CHR ''-'')]"

text \<open>
  The quality repair of \<^verbatim>\<open>build_emissionmatrix\<close> (the two branches under
  ``Change quality score''). The second operand of the first test is a list
  comprehension, which is true exactly when the quality list is not empty, so the first
  branch is taken whenever all qualities are equal.
\<close>

definition quality_numbers :: "qual list \<Rightarrow> real list" where
  "quality_numbers qs = concat (map (\<lambda>q. case q of QGap \<Rightarrow> [] | QNum x \<Rightarrow> [x]) qs)"

definition repair_qualities :: "qual list \<Rightarrow> real list \<Rightarrow> error + qual list" where
  "repair_qualities pileup_qual mapq_list =
     (if list_all (\<lambda>elem. elem = hd pileup_qual) pileup_qual \<and> pileup_qual \<noteq> []
      then (if length mapq_list < length pileup_qual then Inl IndexError
            else Inr (map (\<lambda>m. QNum (m / 4)) (take (length pileup_qual) mapq_list)))
      else if QGap \<in> set pileup_qual
      then (let tempt_counter = length (quality_numbers pileup_qual);
                temp_val = sum_list (quality_numbers pileup_qual)
            in if tempt_counter = 0 then Inl ZeroDivisionError
               else Inr (map (\<lambda>q. case q of QGap \<Rightarrow> QNum (temp_val / real tempt_counter)
                                          | QNum x \<Rightarrow> QNum x) pileup_qual))
      else Inr pileup_qual)"

text \<open>
  The loop over the pileup for one genotype: the three cases, added up in
  \<^verbatim>\<open>temp_value\<close>. Negating the placeholder quality raises \<open>TypeError\<close>.
\<close>

fun emission_sum :: "char \<times> char \<Rightarrow> (char \<times> qual) list \<Rightarrow> fl \<Rightarrow> error + fl" where
  "emission_sum g [] temp_value = Inr temp_value"
| "emission_sum g ((x, QGap) # rest) temp_value = Inl TypeError"
| "emission_sum g ((x, QNum q) # rest) temp_value =
     (let temp =
        (if fst g = x \<and> snd g = x then fl_log10 (Fin (1 - 10 powr (- q / 10)))
         else if x \<noteq> fst g \<and> x \<noteq> snd g then fl_add (Fin (- q / 10)) (fl_log10 (Fin 0.25))
         else fl_log10 (Fin (0.5 * (1 - 10 powr (- q / 10)) + 0.125 * 10 powr (- q / 10))))
      in emission_sum g rest (fl_add temp_value temp))"

text \<open>One genotype of one column: the two filters, then the sum.\<close>

definition genotype_emission :: "char \<times> char \<Rightarrow> string \<Rightarrow> qual list \<Rightarrow> error + eentry" where
  "genotype_emission g pileup pileup_qual =
     (if g = (CHR ''-'', CHR ''-'') \<and> real (count_gaps pileup) \<ge> real (length pileup) * 0.8
      then Inr (EVal (Fin 0))
      else if \<not> list_ex (\<lambda>b. fst g = b \<or> snd g = b) pileup then Inr ENaN
      else bindE (emission_sum g (zip pileup pileup_qual) (Fin 0)) (\<lambda>v. Inr (EVal v)))"

text \<open>
  One iteration of the loop over the reference. The variable \<^verbatim>\<open>vector\<close> keeps its
  value from one iteration to the next and is unbound before its first assignment; it
  is the second component of the state. In the branch for a base that is not a gap the
  index \<^verbatim>\<open>ii - 15\<close> is negative and counts from the end of the fifteen-entry table,
  which is the entry \<^verbatim>\<open>ii\<close>.
\<close>

definition emission_column ::
  "read list \<Rightarrow> string \<Rightarrow> nat \<Rightarrow> (char \<times> char) list option
     \<Rightarrow> error + (eentry col \<times> (char \<times> char) list option)" where
  "emission_column upd_sam upd_reference i vector =
     bindE (get_pileup upd_sam i) (\<lambda>(pileup, pileup_qual, mapq_list).
       if length pileup < 5 \<or> upd_reference ! i = CHR ''N'' then Inr (Sentinel, vector)
       else
         bindE (repair_qualities pileup_qual mapq_list) (\<lambda>pileup_qual.
           if upd_reference ! i = CHR ''-'' then
             bindE (mapE (\<lambda>g. genotype_emission g pileup pileup_qual) vector_A) (\<lambda>vals.
               Inr (Col (replicate 15 ENaN @ vals), Some vector_A))
           else
             (let vector =
                (if upd_reference ! i = CHR ''A'' then Some vector_A
                 else if upd_reference ! i = CHR ''C'' then Some vector_C
                 else if upd_reference ! i = CHR ''G'' then Some vector_G
                 else if upd_reference ! i = CHR ''T'' then Some vector_T
                 else vector)
              in case vector of
                   None \<Rightarrow> Inl UnboundLocalError
                 | Some vec \<Rightarrow>
                     bindE (mapE (\<lambda>g. genotype_emission g pileup pileup_qual) (take 15 vec))
                       (\<lambda>vals. Inr (Col (vals @ replicate 15 ENaN), vector)))))"

fun build_loop ::
  "read list \<Rightarrow> string \<Rightarrow> nat list \<Rightarrow> (char \<times> char) list option \<Rightarrow> error + eentry col list" where
  "build_loop upd_sam upd_reference [] vector = Inr []"
| "build_loop upd_sam upd_reference (i # rest) vector =
     bindE (emission_column upd_sam upd_reference i vector) (\<lambda>(column, vector').
     bindE (build_loop upd_sam upd_reference rest vector') (\<lambda>columns.
       Inr (column # columns)))"

definition build_emissionmatrix :: "read list \<Rightarrow> string \<Rightarrow> error + eentry col list" where
  "build_emissionmatrix upd_sam upd_reference =
     build_loop upd_sam upd_reference [0 ..< length upd_reference] None"

subsection \<open>Viterbi Decoder\<close>

text \<open>
  The first loop of \<^verbatim>\<open>viterbi\<close> replaces every \<^verbatim>\<open>"NaN"\<close> by negative
  infinity.
\<close>

definition nan_to_ninf :: "eentry col \<Rightarrow> fl col" where
  "nan_to_ninf c =
     (case c of Sentinel \<Rightarrow> Sentinel
      | Col es \<Rightarrow> Col (map (\<lambda>e. case e of ENaN \<Rightarrow> NInf | EVal v \<Rightarrow> v) es))"

text \<open>
  The initialisation branch: \<^verbatim>\<open>initialprob[ii] * exp(emission[ii])\<close> for every
  entry of the column, divided by the sum of these products.
\<close>

definition init_column :: "fl list \<Rightarrow> fl list \<Rightarrow> error + fl list" where
  "init_column initialprob e =
     (if length initialprob < length e then Inl IndexError
      else
        let temp_list = map (\<lambda>(p, x). fl_mul p (fl_exp x)) (zip initialprob e);
            sum = fl_sum temp_list
        in Inr (map (\<lambda>t. fl_div t sum) temp_list))"

text \<open>
  The branch for a column that follows a data column. Row \<open>y\<close> of
  \<^verbatim>\<open>true_delta_matrix\<close> holds \<^verbatim>\<open>transmission_matrix[y][z] * delta[i-1][z]\<close> for the
  thirty \<open>z\<close>; \<^verbatim>\<open>max_list[y]\<close> is the maximum of row \<open>y\<close>. The tests against the
  strings \<^verbatim>\<open>"NaN"\<close> and \<^verbatim>\<open>"nan"\<close> compare numbers with strings and never
  succeed. Every out-of-range read raises the same \<open>IndexError\<close>.
\<close>

definition step_column :: "fl list list \<Rightarrow> fl list \<Rightarrow> fl list \<Rightarrow> error + fl list" where
  "step_column transmission_matrix prev e =
     (if length prev < 30 \<or> length transmission_matrix < 30
         \<or> list_ex (\<lambda>row. length row < 30) (take 30 transmission_matrix)
         \<or> length e < 30
      then Inl IndexError
      else
        let true_delta_matrix =
              map (\<lambda>y. map (\<lambda>z. fl_mul (transmission_matrix ! y ! z) (prev ! z)) [0 ..< 30])
                [0 ..< 30]
        in bindE (mapE np_max true_delta_matrix) (\<lambda>max_list.
             let max_list = map fl_log max_list;
                 emmi_list = map (\<lambda>y. fl_add (max_list ! y) (e ! y)) [0 ..< 30]
             in bindE (logsumexp emmi_list) (\<lambda>den.
                  Inr (map (\<lambda>x. fl_exp (fl_sub x den)) emmi_list))))"

text \<open>
  The forward loop. \<open>prev_e\<close> is \<^verbatim>\<open>emission_matrix[i-1]\<close>, absent when \<open>i\<close> is
  zero; \<open>delta\<close> is the list built so far, whose last element is \<^verbatim>\<open>delta[i-1]\<close>.
\<close>

fun forward ::
  "fl list list \<Rightarrow> fl list \<Rightarrow> fl col option \<Rightarrow> fl col list \<Rightarrow> fl col list
     \<Rightarrow> error + fl col list" where
  "forward tm initialprob prev_e delta [] = Inr delta"
| "forward tm initialprob prev_e delta (Sentinel # rest) =
     forward tm initialprob (Some Sentinel) (delta @ [Sentinel]) rest"
| "forward tm initialprob prev_e delta (Col e # rest) =
     (if prev_e = None \<or> prev_e = Some Sentinel
      then bindE (init_column initialprob e) (\<lambda>d.
             forward tm initialprob (Some (Col e)) (delta @ [Col d]) rest)
      else (case last delta of
              Sentinel \<Rightarrow> Inl TypeError
            | Col prev \<Rightarrow>
                bindE (step_column tm prev e) (\<lambda>d.
                  forward tm initialprob (Some (Col e)) (delta @ [Col d]) rest)))"

text \<open>
  The backtracking loop over the reversed \<open>delta\<close>, one iteration for a data column
  first. \<open>rest\<close> is what follows index \<open>i\<close>, so its first element is
  \<^verbatim>\<open>delta[i+1]\<close>, and reading it when nothing follows is out of range. \<open>xtilde\<close> has
  \<open>i\<close> elements: it is empty exactly when \<open>i\<close> is zero, and its last element is
  \<^verbatim>\<open>xtilde[i-1]\<close>, which may be \<^verbatim>\<open>-1\<close> and then selects the last row of the
  transition matrix.
\<close>

definition backtrack_step :: "fl list list \<Rightarrow> fl list \<Rightarrow> fl col list \<Rightarrow> int list \<Rightarrow> error + nat" where
  "backtrack_step tm d rest xtilde =
     (if xtilde = [] then argmax_index d
      else (case rest of
              [] \<Rightarrow> Inl IndexError
            | nxt # rest' \<Rightarrow>
                if nxt = Sentinel then argmax_index d
                else
                  bindE (pyidx tm (last xtilde)) (\<lambda>trans_row.
                    if length d < length trans_row then Inl IndexError
                    else argmax_index (map (\<lambda>(x, t). fl_mul x t) (zip d trans_row)))))"

fun backtrack :: "fl list list \<Rightarrow> fl col list \<Rightarrow> int list \<Rightarrow> error + int list" where
  "backtrack tm [] xtilde = Inr xtilde"
| "backtrack tm (Sentinel # rest) xtilde = backtrack tm rest (xtilde @ [- 1])"
| "backtrack tm (Col d # rest) xtilde =
     bindE (backtrack_step tm d rest xtilde) (\<lambda>temp. backtrack tm rest (xtilde @ [int temp]))"

definition viterbi :: "eentry col list \<Rightarrow> fl list list \<Rightarrow> error + int list" where
  "viterbi emission_matrix transmission_matrix =
     bindE (idx transmission_matrix 0) (\<lambda>initialprob.
     bindE (forward transmission_matrix initialprob None [] (map nan_to_ninf emission_matrix))
       (\<lambda>delta.
     bindE (backtrack transmission_matrix (rev delta) []) (\<lambda>xtilde.
       Inr (rev xtilde))))"

subsection \<open>Genotype Resolver\<close>

text \<open>
  A resolved genotype is \<^verbatim>\<open>-1\<close>, a two-element list of one-character strings, or
  the reference character itself. \<^verbatim>\<open>find_base_state\<close> extends the table of base A
  in place with itself, so the table of base A has thirty entries when the other three
  tables are extended with it, and those have forty-five.
\<close>

datatype base_state = BSentinel | BPair char char | BChar char

definition vector_A_ex :: "(char \<times> char) list" where
  "vector_A_ex = vector_A @ vector_A"

definition vector_C_ex :: "(char \<times> char) list" where
  "vector_C_ex = vector_C @ vector_A_ex"

definition vector_G_ex :: "(char \<times> char) list" where
  "vector_G_ex = vector_G @ vector_A_ex"

definition vector_T_ex :: "(char \<times> char) list" where
  "vector_T_ex = vector_T @ vector_A_ex"

definition lookup_genotype :: "(char \<times> char) list \<Rightarrow> int \<Rightarrow> error + base_state" where
  "lookup_genotype table x = bindE (pyidx table x) (\<lambda>g. Inr (BPair (fst g) (snd g)))"

definition base_state_at :: "int list \<Rightarrow> string \<Rightarrow> nat \<Rightarrow> error + base_state" where
  "base_state_at xtilde upd_ref i =
     bindE (idx xtilde i) (\<lambda>x.
       if x = - 1 then Inr BSentinel
       else if upd_ref ! i = CHR ''A'' then lookup_genotype vector_A_ex x
       else if upd_ref ! i = CHR ''C'' then lookup_genotype vector_C_ex x
       else if upd_ref ! i = CHR ''G'' then lookup_genotype vector_G_ex x
       else if upd_ref ! i = CHR ''T'' then lookup_genotype vector_T_ex x
       else if upd_ref ! i = CHR ''N'' then Inr (BChar (upd_ref ! i))
       else if upd_ref ! i = CHR ''-'' then lookup_genotype vector_A_ex x
       else Inr (BChar (upd_ref ! i)))"

definition find_base_state :: "int list \<Rightarrow> string \<Rightarrow> error + base_state list" where
  "find_base_state xtilde upd_ref =
     mapE (base_state_at xtilde upd_ref) [0 ..< length upd_ref]"

subsection \<open>Variant Formatter\<close>

text \<open>\<^verbatim>\<open>str(i)\<close> for an index of the loop, and the separator \<^verbatim>\<open>"\t"\<close>.\<close>

fun string_of_nat :: "nat \<Rightarrow> string" where
  "string_of_nat n =
     (if n < 10 then [''0123456789'' ! n]
      else string_of_nat (n div 10) @ [''0123456789'' ! (n mod 10)])"

declare string_of_nat.simps [simp del]

definition tab :: string where
  "tab = [CHR 0x09]"

text \<open>
  \<^verbatim>\<open>g[0]\<close> and \<^verbatim>\<open>g[1]\<close> on a resolved genotype: subscripting \<^verbatim>\<open>-1\<close> raises
  \<open>TypeError\<close>, and a one-character string has no second character.
\<close>

fun bs0 :: "base_state \<Rightarrow> error + char" where
  "bs0 BSentinel = Inl TypeError"
| "bs0 (BPair a b) = Inr a"
| "bs0 (BChar c) = Inr c"

fun bs1 :: "base_state \<Rightarrow> error + char" where
  "bs1 BSentinel = Inl TypeError"
| "bs1 (BPair a b) = Inr b"
| "bs1 (BChar c) = Inl IndexError"

text \<open>
  \<^verbatim>\<open>ref[i - 1]\<close> for an index \<open>i\<close> of the loop over \<^verbatim>\<open>ref\<close>: at \<open>i = 0\<close> the
  index is \<^verbatim>\<open>-1\<close>, the last character.
\<close>

definition ref_prev :: "string \<Rightarrow> nat \<Rightarrow> char" where
  "ref_prev ref i = (if i = 0 then last ref else ref ! (i - 1))"

text \<open>
  The \<^verbatim>\<open>while gap_control\<close> loop, on the part of the gapped reference from index
  \<^verbatim>\<open>i + gap_counter\<close> on: it counts the gaps that follow and raises when the
  reference ends inside the run.
\<close>

fun scan_gaps :: "string \<Rightarrow> nat \<Rightarrow> nat \<Rightarrow> error + (nat \<times> nat)" where
  "scan_gaps [] gap_counter this_gap_number = Inl IndexError"
| "scan_gaps (c # cs) gap_counter this_gap_number =
     (if c = CHR ''-'' then scan_gaps cs (gap_counter + 1) (this_gap_number + 1)
      else Inr (gap_counter, this_gap_number))"

fun foldE :: "('a \<Rightarrow> 's \<Rightarrow> error + 's) \<Rightarrow> 'a list \<Rightarrow> 's \<Rightarrow> error + 's" where
  "foldE f [] st = Inr st"
| "foldE f (x # xs) st = bindE (f x st) (foldE f xs)"

text \<open>
  \<^verbatim>\<open>create_variant_calling_output\<close> of \<^verbatim>\<open>vcHMM.py\<close>. One iteration of the loop
  \<^verbatim>\<open>for ii in range(this_gap_number)\<close>; the state is (variants, variant\_list).
\<close>

definition insertion_record ::
  "string \<Rightarrow> base_state list \<Rightarrow> nat \<Rightarrow> nat \<Rightarrow> nat \<Rightarrow> nat \<Rightarrow> string \<times> string list
     \<Rightarrow> error + (string \<times> string list)" where
  "insertion_record ref base_states i gap_counter this_gap_number ii st =
     (case st of (variants, variant_list) \<Rightarrow>
        bindE
          (if ii = 0 then
             bindE (bindE (idx base_states (i + ii + gap_counter)) bs0) (\<lambda>a.
             bindE (idx base_states (i + ii + gap_counter - this_gap_number)) (\<lambda>g.
             bindE (bs1 g) (\<lambda>b1.
             bindE (bs0 g) (\<lambda>b0.
               if a = b1 then
                 Inr (string_of_nat i @ tab @ [ref_prev ref i] @ tab @ [ref_prev ref i] @ [b0])
               else if b0 \<noteq> b1 \<and> (b0 \<noteq> CHR ''-'' \<and> b1 \<noteq> CHR ''-'') then
                 Inr (string_of_nat i @ tab @ [ref_prev ref i] @ tab @ [ref_prev ref i] @ [b0]
                        @ '','' @ [ref_prev ref i] @ [b1])
               else if b0 \<noteq> b1 \<and> (b0 \<noteq> CHR ''-'' \<or> b1 \<noteq> CHR ''-'') then
                 Inr (string_of_nat i @ tab @ [ref_prev ref i] @ tab @ [ref_prev ref i]
                        @ [if b0 \<noteq> CHR ''-'' then b0 else b1])
               else Inr variants))))
           else
             bindE (bindE (idx base_states (i + ii + gap_counter - this_gap_number)) bs0)
               (\<lambda>b0. Inr (variants @ [b0])))
          (\<lambda>variants'.
             Inr (variants',
                  if ii = this_gap_number - 1 then variant_list @ [variants'] else variant_list)))"

text \<open>
  The branch for a reference base that is not a gap: deletion or SNP. Concatenating the
  number \<^verbatim>\<open>0\<close> left in \<^verbatim>\<open>temp\<close> raises \<open>TypeError\<close>.
\<close>

definition snp_record ::
  "string \<Rightarrow> char \<Rightarrow> base_state list \<Rightarrow> int \<Rightarrow> nat \<Rightarrow> nat \<Rightarrow> error + string" where
  "snp_record ref u base_states x i gap_counter =
     (if x = 14 then
        Inr (string_of_nat i @ tab @ [ref_prev ref i] @ [ref ! i] @ tab @ [ref_prev ref i])
      else
        bindE (idx base_states (i + gap_counter)) (\<lambda>g.
        bindE (bs0 g) (\<lambda>b0.
          if b0 = CHR ''-'' then
            bindE (bs1 g) (\<lambda>b1.
              if b1 \<noteq> CHR ''-'' then
                Inr (string_of_nat i @ tab @ [ref_prev ref i] @ [ref ! i] @ tab
                       @ [ref_prev ref i] @ [b1] @ '','' @ [ref_prev ref i])
              else Inl TypeError)
          else
            bindE (bs1 g) (\<lambda>b1.
              if b1 = CHR ''-'' then
                Inr (string_of_nat i @ tab @ [ref_prev ref i] @ [ref ! i] @ tab
                       @ [ref_prev ref i] @ [b0] @ '','' @ [ref_prev ref i])
              else if b0 = b1 then
                Inr (string_of_nat i @ tab @ [ref ! i] @ tab @ [b0])
              else if b0 = u \<or> b1 = u then
                Inr (string_of_nat i @ tab @ [ref ! i] @ tab @ [if b0 \<noteq> u then b0 else b1])
              else
                Inr (string_of_nat i @ tab @ [ref ! i] @ tab @ [b0] @ '','' @ [b1])))))"

text \<open>One iteration of the loop over \<^verbatim>\<open>ref\<close>; the state is
  (gap\_counter, variants, variant\_list).\<close>

definition variant_step ::
  "string \<Rightarrow> string \<Rightarrow> base_state list \<Rightarrow> int list \<Rightarrow> nat \<Rightarrow> nat \<times> string \<times> string list
     \<Rightarrow> error + (nat \<times> string \<times> string list)" where
  "variant_step ref upd_ref base_states xtilde i st =
     (case st of (gap_counter, variants, variant_list) \<Rightarrow>
        bindE (idx xtilde (i + gap_counter)) (\<lambda>x.
        bindE (idx upd_ref (i + gap_counter)) (\<lambda>u.
          if x = 0 \<or> x = 29 \<or> x = - 1 then
            Inr (if u = CHR ''-'' then gap_counter + 1 else gap_counter, variants, variant_list)
          else if u = CHR ''-'' then
            bindE (scan_gaps (drop (i + gap_counter + 1) upd_ref) (gap_counter + 1) 1)
              (\<lambda>(gap_counter', this_gap_number).
                 bindE (foldE (insertion_record ref base_states i gap_counter' this_gap_number)
                          [0 ..< this_gap_number] (variants, variant_list))
                   (\<lambda>(variants', variant_list'). Inr (gap_counter', variants', variant_list')))
          else
            bindE (snp_record ref u base_states x i gap_counter) (\<lambda>variants'.
              Inr (gap_counter, variants', variant_list @ [variants'])))))"

definition create_variant_calling_output ::
  "string \<Rightarrow> string \<Rightarrow> base_state list \<Rightarrow> int list \<Rightarrow> error + string list" where
  "create_variant_calling_output ref upd_ref base_states xtilde =
     bindE (foldE (variant_step ref upd_ref base_states xtilde) [0 ..< length ref] (0, [], []))
       (\<lambda>(gap_counter, variants, variant_list). Inr variant_list)"

text \<open>
  \<^verbatim>\<open>create_varing_calling_output\<close> of \<^verbatim>\<open>variant_calling_output.py\<close>. The fields
  are separated by \<^verbatim>\<open>" \t "\<close>; the insertion branch reads the genotype at
  \<^verbatim>\<open>i + ii\<close>, and for a later gap of a run it subscripts the number
  \<^verbatim>\<open>xtilde[i + ii]\<close>, which raises \<open>TypeError\<close>; the branch for a SNP on one
  strand reports the allele that equals the reference base.
\<close>

definition sep2 :: string where
  "sep2 = '' '' @ tab @ '' ''"

definition insertion_record2 ::
  "string \<Rightarrow> base_state list \<Rightarrow> int list \<Rightarrow> nat \<Rightarrow> nat \<Rightarrow> nat \<Rightarrow> string \<times> string list
     \<Rightarrow> error + (string \<times> string list)" where
  "insertion_record2 ref base_states xtilde i this_gap_number ii st =
     (case st of (variants, variant_list) \<Rightarrow>
        bindE
          (if ii = 0 then
             bindE (idx base_states (i + ii)) (\<lambda>g.
             bindE (bs0 g) (\<lambda>b0.
             bindE (bs1 g) (\<lambda>b1.
               if b0 = b1 then
                 Inr (string_of_nat i @ sep2 @ [ref_prev ref i] @ sep2 @ [ref_prev ref i] @ [b0])
               else if b0 \<noteq> b1 \<and> b0 \<noteq> CHR ''-'' \<and> b1 \<noteq> CHR ''-'' then
                 Inr (string_of_nat i @ sep2 @ [ref_prev ref i] @ sep2 @ [ref_prev ref i] @ [b0]
                        @ '','' @ [ref_prev ref i] @ [b1])
               else if b0 \<noteq> b1 \<and> (b0 \<noteq> CHR ''-'' \<or> b1 \<noteq> CHR ''-'') then
                 Inr (string_of_nat i @ sep2 @ [ref_prev ref i] @ sep2 @ [ref_prev ref i]
                        @ [if b0 \<noteq> CHR ''-'' then b0 else b1])
               else Inr variants)))
           else
             bindE (idx xtilde (i + ii)) (\<lambda>x. Inl TypeError))
          (\<lambda>variants'.
             Inr (variants',
                  if ii = this_gap_number - 1 then variant_list @ [variants'] else variant_list)))"

definition snp_record2 ::
  "string \<Rightarrow> char \<Rightarrow> base_state list \<Rightarrow> int \<Rightarrow> nat \<Rightarrow> nat \<Rightarrow> error + string" where
  "snp_record2 ref u base_states x i gap_counter =
     (if x = 14 then
        Inr (string_of_nat i @ sep2 @ [ref_prev ref i] @ [ref ! i] @ sep2 @ [ref_prev ref i])
      else
        bindE (idx base_states (i + gap_counter)) (\<lambda>g.
        bindE (bs0 g) (\<lambda>b0.
          if b0 = CHR ''-'' then
            bindE (bs1 g) (\<lambda>b1.
              if b1 \<noteq> CHR ''-'' then
                Inr (string_of_nat i @ sep2 @ [ref_prev ref i] @ [ref ! i] @ sep2
                       @ [ref_prev ref i] @ [b1] @ '','' @ [ref_prev ref i])
              else Inl TypeError)
          else
            bindE (bs1 g) (\<lambda>b1.
              if b1 = CHR ''-'' then
                Inr (string_of_nat i @ sep2 @ [ref_prev ref i] @ [ref ! i] @ sep2
                       @ [ref_prev ref i] @ [b0] @ '','' @ [ref_prev ref i])
              else if b0 = b1 then
                Inr (string_of_nat i @ sep2 @ [ref ! i] @ sep2 @ [b0])
              else if b0 = u \<or> b1 = u then
                Inr (string_of_nat i @ sep2 @ [ref ! i] @ sep2 @ [if b0 = u then b0 else b1])
              else
                Inr (string_of_nat i @ sep2 @ [ref ! i] @ sep2 @ [b0] @ '','' @ [b1])))))"

definition variant_step2 ::
  "string \<Rightarrow> string \<Rightarrow> base_state list \<Rightarrow> int list \<Rightarrow> nat \<Rightarrow> nat \<times> string \<times> string list
     \<Rightarrow> error + (nat \<times> string \<times> string list)" where
  "variant_step2 ref upd_ref base_states xtilde i st =
     (case st of (gap_counter, variants, variant_list) \<Rightarrow>
        bindE (idx xtilde (i + gap_counter)) (\<lambda>x.
        bindE (idx upd_ref (i + gap_counter)) (\<lambda>u.
          if x = 0 \<or> x = 29 \<or> x = - 1 then
            Inr (if u = CHR ''-'' then gap_counter + 1 else gap_counter, variants, variant_list)
          else if u = CHR ''-'' then
            bindE (scan_gaps (drop (i + gap_counter + 1) upd_ref) (gap_counter + 1) 1)
              (\<lambda>(gap_counter', this_gap_number).
                 bindE (foldE (insertion_record2 ref base_states xtilde i this_gap_number)
                          [0 ..< this_gap_number] (variants, variant_list))
                   (\<lambda>(variants', variant_list'). Inr (gap_counter', variants', variant_list')))
          else
            bindE (snp_record2 ref u base_states x i gap_counter) (\<lambda>variants'.
              Inr (gap_counter, variants', variant_list @ [variants'])))))"

definition create_varing_calling_output ::
  "string \<Rightarrow> string \<Rightarrow> base_state list \<Rightarrow> int list \<Rightarrow> error + string list" where
  "create_varing_calling_output ref upd_ref base_states xtilde =
     bindE (foldE (variant_step2 ref upd_ref base_states xtilde) [0 ..< length ref] (0, [], []))
       (\<lambda>(gap_counter, variants, variant_list). Inr variant_list)"

subsection \<open>The run of \<^verbatim>\<open>main\<close>\<close>

text \<open>
  The stages in the order of \<^verbatim>\<open>main\<close>, from the sorted reads and the reference
  sequence to the variant records, with the parameters for simulated data.
\<close>

definition call_variants :: "read list \<Rightarrow> string \<Rightarrow> error + string list" where
  "call_variants sam ref_seq =
     (case get_cigar sam of (newsam, ins) \<Rightarrow>
        let unique_inserts = del_duplicate_ins ins;
            upd_inserts = update_insertions unique_inserts;
            upd_sam = update_startpos newsam upd_inserts;
            updated_sam = update_reads upd_sam upd_inserts;
            updated_refseq = update_ref ref_seq upd_inserts
        in
          bindE (create_transition_matrix pre_transition_matrix_simulated hetrate_simulated)
            (\<lambda>trans_matrix.
          bindE (build_emissionmatrix updated_sam updated_refseq) (\<lambda>emission_matrix.
          bindE (viterbi emission_matrix (map (map Fin) trans_matrix)) (\<lambda>xtilde.
          bindE (find_base_state xtilde updated_refseq) (\<lambda>hidden_states.
            create_variant_calling_output ref_seq updated_refseq hidden_states xtilde)))))"

text \<open>The state indices for which the formatters emit no record.\<close>

definition quiet :: "int \<Rightarrow> bool" where
  "quiet x = (x = 0 \<or> x = 29 \<or> x = - 1)"

text \<open>Two columns are of the same kind: both the no-data marker, or both lists.\<close>

definition same_shape :: "'a col \<Rightarrow> 'b col \<Rightarrow> bool" where
  "same_shape c d = ((c = Sentinel) = (d = Sentinel))"

text \<open>
  The forward step in the words of the specification, with the transition factor for a
  source state \<open>i\<close> and a destination state \<open>j\<close> as a parameter \<open>w i j\<close>: for every
  destination the maximum over the sources of the factor times the previous
  probability of the source, its natural logarithm plus the emission of the destination,
  and the thirty sums normalised by log-sum-exp and exponentiated.
\<close>

definition spec_forward_column ::
  "(nat \<Rightarrow> nat \<Rightarrow> fl) \<Rightarrow> fl list \<Rightarrow> fl list \<Rightarrow> error + fl list" where
  "spec_forward_column w prev e =
     bindE (mapE (\<lambda>j. np_max (map (\<lambda>i. fl_mul (w i j) (prev ! i)) [0 ..< 30])) [0 ..< 30])
       (\<lambda>maxima.
          let emmi = map (\<lambda>j. fl_add (fl_log (maxima ! j)) (e ! j)) [0 ..< 30]
          in bindE (logsumexp emmi) (\<lambda>den. Inr (map (\<lambda>x. fl_exp (fl_sub x den)) emmi)))"

text \<open>
  A transition matrix in which every state moves to state 0 with probability one, and
  the forward vector that row 0 of it gives on a column with every emission zero.
\<close>

definition sink_tm :: "fl list list" where
  "sink_tm = replicate 30 (Fin 1 # replicate 29 (Fin 0))"

definition sink_start :: "fl list" where
  "sink_start = Fin 1 # replicate 29 (Fin 0)"

section \<open>Properties\<close>

subsection \<open>Transition matrix\<close>

lemma row_explicit:
  assumes "length v = 4"
  shows "create_row_transition_matrix v h = Inr
    (let t = v ! 3 * h / 32; r = 1 - t;
         a = v ! 0 * (1 - h) * r;
         b = v ! 1 * (1 - h) / 3 * r;
         c = (v ! 0 + v ! 1 / 3) * h / 4 * r;
         d = (v ! 0 + v ! 2) * h / 4 * r;
         e = v ! 1 * h / 6 * r;
         f = (v ! 1 / 3 + v ! 2) * h / 4 * r;
         g = v ! 2 * (1 - h) * r;
         k = v ! 3 * (1 - h) / 4 * r;
         l = v ! 3 * h / 8 * r;
         m = v ! 3 * h / 16 * r
     in [a, b, b, b, c, c, c, d, e, e, f, e, f, f, g, k, k, k, k, l, l, l, m, l, l, m, l, m, m, t])"
  using assms
  by (simp add: create_row_transition_matrix_def assign_all_def Let_def upt_rec
      eval_nat_numeral)

lemma len4: "length v = 4 \<Longrightarrow> \<exists>a b c d. v = [a,b,c,d]"
  by (auto simp: eval_nat_numeral length_Suc_conv)

lemma row_algebra:
  fixes a b c d h r t :: real
  shows "sum_list [a * (1 - h) * r, b * (1 - h) / 3 * r, b * (1 - h) / 3 * r, b * (1 - h) / 3 * r,
     (a + b / 3) * h / 4 * r, (a + b / 3) * h / 4 * r, (a + b / 3) * h / 4 * r,
     (a + c) * h / 4 * r, b * h / 6 * r, b * h / 6 * r, (b / 3 + c) * h / 4 * r, b * h / 6 * r,
     (b / 3 + c) * h / 4 * r, (b / 3 + c) * h / 4 * r, c * (1 - h) * r,
     d * (1 - h) / 4 * r, d * (1 - h) / 4 * r, d * (1 - h) / 4 * r, d * (1 - h) / 4 * r,
     d * h / 8 * r, d * h / 8 * r, d * h / 8 * r, d * h / 16 * r, d * h / 8 * r, d * h / 8 * r,
     d * h / 16 * r, d * h / 8 * r, d * h / 16 * r, d * h / 16 * r, t] = (a + b + c + d) * r + t"
  by (simp add: field_simps)

lemma row_sum:
  assumes "length v = 4" "sum_list v = 1"
  shows "\<exists>row. create_row_transition_matrix v h = Inr row \<and> length row = 30 \<and> sum_list row = 1"
proof -
  obtain a b c d where v: "v = [a,b,c,d]" using len4[OF assms(1)] by blast
  have s: "a + b + c + d = 1" using assms(2) v by simp
  show ?thesis
    unfolding v using row_explicit[of "[a,b,c,d]" h] row_algebra[of a h "1 - d * h / 32" b c d "d * h / 32"] s
    by (simp add: Let_def)
qed

lemma tm_explicit:
  assumes "create_row_transition_matrix p0 h = Inr r0" "create_row_transition_matrix p1 h = Inr r1"
   "create_row_transition_matrix p2 h = Inr r14" "create_row_transition_matrix p3 h = Inr r15"
   "length r1 = 30"
  shows "create_transition_matrix [p0,p1,p2,p3] h = Inr
    (let m = map (\<lambda>j. (r1 ! j + r14 ! j) / 2) [0..<30]; u = replicate 30 (1/30) in
     [r0, r1, r1, r1, r1, r1, r1, m, r1, r1, m, r1, m, m, r14,
      r15, r15, r15, r15, r15, r15, r15, r15, r15, r15, r15, r15, r15, r15, u])"
proof -
  have u: "[16..<29::nat] = [16,17,18,19,20,21,22,23,24,25,26,27,28]" by (simp add: upt_rec)
  have r: "replicate 30 ([]::real list) = [[],[],[],[],[],[],[],[],[],[],[],[],[],[],[],[],[],[],[],[],[],[],[],[],[],[],[],[],[],[]]"
    by (simp add: eval_nat_numeral)
  have m: "map (\<lambda>i. 1 / 30) [0 ..< 30] = replicate 30 (1/30::real)"
    by (simp add: map_replicate_const)
  show ?thesis
    unfolding create_transition_matrix_def u r m
    by (simp add: assms bindE_def idx_def assign_all_def Let_def)
qed

lemma mean_row_sum:
  fixes r1 r14 :: "real list"
  assumes "length r1 = 30" "length r14 = 30"
  shows "sum_list (map (\<lambda>j. (r1 ! j + r14 ! j) / 2) [0..<30]) = (sum_list r1 + sum_list r14) / 2"
proof -
  have "sum_list (map (\<lambda>j. (r1 ! j + r14 ! j) / 2) [0..<30])
      = (\<Sum>j = 0..<30. (r1 ! j + r14 ! j) / 2)"
    by (simp add: sum_list_sum_nth[of "map (\<lambda>j. (r1 ! j + r14 ! j) / 2) [0..<30]"] )
  also have "\<dots> = ((\<Sum>j = 0..<30. r1 ! j) + (\<Sum>j = 0..<30. r14 ! j)) / 2"
    by (simp add: sum.distrib sum_divide_distrib add_divide_distrib)
  also have "\<dots> = (sum_list r1 + sum_list r14) / 2"
    using assms by (simp add: sum_list_sum_nth)
  finally show ?thesis .
qed

text \<open>
  Claim C2. For every 4x4 pre-transition matrix whose four rows each sum to 1 and every
  heterozygosity rate, \<open>create_transition_matrix\<close> returns a matrix of thirty rows in
  which each of the rows 0 to 28 has thirty entries that sum to exactly 1, and row 29 is
  1/30 in each of its thirty columns. The sum is exact in real arithmetic; the bound
  \<open>0 \<le> h < 1\<close> on the rate is not needed.
\<close>

theorem transition_rows_sum_to_one:
  assumes "length P = 4" and "\<forall>v \<in> set P. length v = 4 \<and> sum_list v = 1"
  shows "\<exists>T. create_transition_matrix P h = Inr T \<and> length T = 30
           \<and> (\<forall>i<29. length (T ! i) = 30 \<and> sum_list (T ! i) = 1)
           \<and> length (T ! 29) = 30 \<and> (\<forall>j<30. T ! 29 ! j = 1 / 30)"
proof -
  obtain p0 p1 p2 p3 where P: "P = [p0, p1, p2, p3]" using len4[OF assms(1)] by blast
  from assms(2) P obtain r0 r1 r14 r15 where
    r: "create_row_transition_matrix p0 h = Inr r0" "create_row_transition_matrix p1 h = Inr r1"
       "create_row_transition_matrix p2 h = Inr r14" "create_row_transition_matrix p3 h = Inr r15"
    and l: "length r0 = 30" "length r1 = 30" "length r14 = 30" "length r15 = 30"
    and s: "sum_list r0 = 1" "sum_list r1 = 1" "sum_list r14 = 1" "sum_list r15 = 1"
    using row_sum[of p0 h] row_sum[of p1 h] row_sum[of p2 h] row_sum[of p3 h] by auto
  define m where "m = map (\<lambda>j. (r1 ! j + r14 ! j) / 2) [0..<30]"
  have m: "length m = 30" "sum_list m = 1"
    using mean_row_sum[OF l(2) l(3)] s by (simp_all add: m_def)
  define T where "T = [r0, r1, r1, r1, r1, r1, r1, m, r1, r1, m, r1, m, m, r14,
      r15, r15, r15, r15, r15, r15, r15, r15, r15, r15, r15, r15, r15, r15, replicate 30 (1/30::real)]"
  have T: "create_transition_matrix P h = Inr T"
    unfolding P T_def m_def using tm_explicit[OF r l(2)] by (simp add: Let_def)
  have all29: "list_all (\<lambda>row. length row = 30 \<and> sum_list row = 1) (take 29 T)"
    by (simp add: T_def l s m)
  have len29: "length (take 29 T) = 29"
    by (simp add: T_def)
  have rows: "\<forall>i<29. length (T ! i) = 30 \<and> sum_list (T ! i) = 1"
  proof (intro allI impI)
    fix i :: nat
    assume i: "i < 29"
    then have "take 29 T ! i = T ! i" by simp
    then show "length (T ! i) = 30 \<and> sum_list (T ! i) = 1"
      using all29 len29 i unfolding list_all_length by metis
  qed
  have "length T = 30" "length (T ! 29) = 30" "\<forall>j<30. T ! 29 ! j = 1 / 30"
    by (simp_all add: T_def)
  with T rows show ?thesis by blast
qed

text \<open>The theorem at the parameters of \<^verbatim>\<open>main\<close>.\<close>

theorem transition_rows_sum_to_one_witness:
  "length pre_transition_matrix_simulated = 4
   \<and> list_all (\<lambda>v. length v = 4 \<and> sum_list v = 1) pre_transition_matrix_simulated
   \<and> (\<exists>T. create_transition_matrix pre_transition_matrix_simulated hetrate_simulated = Inr T
          \<and> length T = 30
          \<and> (\<forall>i<29. length (T ! i) = 30 \<and> sum_list (T ! i) = 1)
          \<and> length (T ! 29) = 30 \<and> (\<forall>j<30. T ! 29 ! j = 1 / 30))"
proof -
  have h1: "length pre_transition_matrix_simulated = 4"
    by (simp add: pre_transition_matrix_simulated_def)
  have h2: "\<forall>v \<in> set pre_transition_matrix_simulated. length v = 4 \<and> sum_list v = 1"
    by (simp add: pre_transition_matrix_simulated_def)
  show ?thesis
    using h1 h2 transition_rows_sum_to_one[OF h1 h2, of hetrate_simulated]
    unfolding list_all_iff by blast
qed

subsection \<open>Alignment Normalizer\<close>

text \<open>
  Claim C4, evaluated on the code. For a read with start offset 100, alignment operations
  [(soft-clip,3),(match,5),(insertion,2),(match,10)] and a name that no earlier read
  carries (the read is the only one), \<open>get_cigar\<close> returns the read with start offset
  103 and its first three bases removed, the quality list unchanged (nothing is removed
  from it), and exactly one insertion event, at coordinate 111 with length 2 under the
  read's name: the running offset has counted the three clipped bases as well, so the
  event is not at 108.
\<close>

theorem get_cigar_soft_clip_then_insertion:
  "get_cigar [\<lparr>r_start = 100, r_name = nm, r_seq = s,
       r_cigar = Some [(4, 3), (0, 5), (1, 2), (0, 10)], r_mapq = m, r_qual = q\<rparr>]
   = ([\<lparr>r_start = 103, r_name = nm, r_seq = drop 3 s,
        r_cigar = Some [(0, 5), (1, 2), (0, 10)], r_mapq = m, r_qual = q\<rparr>],
      [(111, 2, nm)])"
  by (simp add: get_cigar_def get_cigar_read_def cigar_op_def record_insertion_def Let_def)

subsection \<open>Coordinate Realigner\<close>

lemma update_absent: "k \<notin> fst ` set d \<Longrightarrow> AList.update k v d = d @ [(k, v)]"
  by (induction d) auto

lemma fold_update_insertions:
  "sorted_wrt (<) (map fst ins) \<Longrightarrow>
   (\<forall>k \<in> fst ` set upd. \<forall>e \<in> set ins. k < (fst (fst e) + int temp, snd (fst e))) \<Longrightarrow>
   fold update_insertions_step ins (temp, upd)
     = (temp + sum_list (map (\<lambda>e. snd (fst e)) ins), upd @ shifted temp ins)"
proof (induction ins arbitrary: temp upd)
  case Nil
  then show ?case by simp
next
  case (Cons e es)
  let ?k = "(fst (fst e) + int temp, snd (fst e))"
  have notin: "?k \<notin> fst ` set upd"
    using Cons.prems(2) by force
  have step: "update_insertions_step e (temp, upd) = (temp + snd (fst e), upd @ [(?k, snd e)])"
    by (simp add: update_insertions_step_def Let_def update_absent[OF notin])
  have sorted': "sorted_wrt (<) (map fst es)" using Cons.prems(1) by simp
  have inv: "\<forall>k \<in> fst ` set (upd @ [(?k, snd e)]). \<forall>e' \<in> set es.
               k < (fst (fst e') + int (temp + snd (fst e)), snd (fst e'))"
  proof (intro ballI)
    fix k e' assume k: "k \<in> fst ` set (upd @ [(?k, snd e)])" and e': "e' \<in> set es"
    have lt: "fst e < fst e'" using Cons.prems(1) e' by auto
    have new: "?k < (fst (fst e') + int (temp + snd (fst e)), snd (fst e'))"
      using lt by (cases "fst e"; cases "fst e'") (auto simp: less_prod_def)
    show "k < (fst (fst e') + int (temp + snd (fst e)), snd (fst e'))"
    proof (cases "k = ?k")
      case True then show ?thesis using new by simp
    next
      case False
      then have "k \<in> fst ` set upd" using k by auto
      then have "k < (fst (fst e') + int temp, snd (fst e'))" using Cons.prems(2) e' by auto
      then show ?thesis by (cases k) (auto simp: less_prod_def)
    qed
  qed
  show ?case
    using Cons.IH[OF sorted' inv] step by (simp add: add.assoc)
qed

lemma update_insertions_shifted:
  "sorted_wrt (<) (map fst ins) \<Longrightarrow> update_insertions ins = shifted 0 ins"
  using fold_update_insertions[of ins "[]" 0] by (simp add: update_insertions_def)

lemma shifted_length: "length (shifted t ins) = length ins"
  by (induction ins arbitrary: t) auto

lemma shifted_nth:
  "k < length ins \<Longrightarrow> shifted t ins ! k =
     ((fst (fst (ins ! k)) + int (t + sum_list (map (\<lambda>e. snd (fst e)) (take k ins))),
       snd (fst (ins ! k))), snd (ins ! k))"
proof (induction ins arbitrary: t k)
  case Nil
  then show ?case by simp
next
  case (Cons e es)
  then show ?case by (cases k) (auto simp: add.assoc)
qed

lemma fold_shift_start:
  "fold shift_start ks rd = rd\<lparr>r_start := spec_running_start (r_start rd) ks\<rparr>"
  by (induction ks arbitrary: rd) (auto simp: shift_start_def)

text \<open>
  Claim C6. When the coalesced events are iterated in strictly ascending
  (coordinate, length) order, \<open>update_insertions\<close> keeps their number and order, and
  the effective coordinate of the event at place \<open>k\<close> is its coordinate plus the sum of
  the lengths of the events before it (length and contributors unchanged);
  \<open>update_startpos\<close> changes nothing but the start offset of each read, which becomes
  the running offset of the specification; and the events (50, length 2) and
  (80, length 3) become (50, 2) and (82, 3), moving a read that starts at 90 to 95.
\<close>

theorem realigner_effective_coordinates:
  assumes "sorted_wrt (<) (map fst ins)"
  shows "length (update_insertions ins) = length ins
       \<and> (\<forall>k<length ins. update_insertions ins ! k =
            ((fst (fst (ins ! k)) + int (sum_list (map (\<lambda>e. snd (fst e)) (take k ins))),
              snd (fst (ins ! k))), snd (ins ! k)))
       \<and> update_startpos sam (update_insertions ins) =
            map (\<lambda>rd. rd\<lparr>r_start := spec_running_start (r_start rd)
                                       (map fst (update_insertions ins))\<rparr>) sam
       \<and> update_insertions [((50, 2), nsa), ((80, 3), nsb)] = [((50, 2), nsa), ((82, 3), nsb)]
       \<and> update_startpos [rd\<lparr>r_start := 90\<rparr>]
            (update_insertions [((50, 2), nsa), ((80, 3), nsb)]) = [rd\<lparr>r_start := 95\<rparr>]"
proof -
  have e: "update_insertions ins = shifted 0 ins"
    by (rule update_insertions_shifted[OF assms])
  have s: "update_insertions [((50, 2), nsa), ((80, 3), nsb)] = [((50, 2), nsa), ((82, 3), nsb)]"
    by (simp add: update_insertions_def update_insertions_step_def)
  have "update_startpos [rd\<lparr>r_start := 90\<rparr>] [((50, 2), nsa), ((82, 3), nsb)]
          = [rd\<lparr>r_start := 95\<rparr>]"
    by (simp add: update_startpos_def shift_start_def)
  then show ?thesis
    unfolding s unfolding e
    by (simp add: shifted_length shifted_nth update_startpos_def fold_shift_start)
qed

text \<open>The theorem at the two events of the scenario and one read that starts at 90.\<close>

theorem realigner_effective_coordinates_witness:
  "sorted_wrt (<) (map fst [((50::int, 2::nat), [''r1'']), ((80, 3), [''r2''])])
   \<and> update_insertions [((50, 2), [''r1'']), ((80, 3), [''r2''])] ! 1 = ((82, 3), [''r2''])
   \<and> update_startpos
        [\<lparr>r_start = 90, r_name = ''r3'', r_seq = ''ACGT'', r_cigar = Some [(0, 4)],
          r_mapq = 60, r_qual = [QNum 30, QNum 30, QNum 30, QNum 30]\<rparr>]
        (update_insertions [((50, 2), [''r1'']), ((80, 3), [''r2''])])
      = [\<lparr>r_start = 95, r_name = ''r3'', r_seq = ''ACGT'', r_cigar = Some [(0, 4)],
          r_mapq = 60, r_qual = [QNum 30, QNum 30, QNum 30, QNum 30]\<rparr>]"
proof -
  let ?ins = "[((50::int, 2::nat), [''r1'']), ((80, 3), [''r2''])]"
  let ?rd = "\<lparr>r_start = 90, r_name = ''r3'', r_seq = ''ACGT'', r_cigar = Some [(0, 4)],
          r_mapq = 60, r_qual = [QNum 30, QNum 30, QNum 30, QNum 30]\<rparr>"
  have h: "sorted_wrt (<) (map fst ?ins)"
    by (simp add: less_prod_def)
  note t = realigner_effective_coordinates[OF h, where sam = "[?rd]" and nsa = "[''r1'']"
      and nsb = "[''r2'']" and rd = ?rd]
  from t have "\<forall>k<length ?ins. update_insertions ?ins ! k =
            ((fst (fst (?ins ! k)) + int (sum_list (map (\<lambda>e. snd (fst e)) (take k ?ins))),
              snd (fst (?ins ! k))), snd (?ins ! k))"
    by blast
  then have a: "update_insertions ?ins ! 1 = ((82, 3), [''r2''])"
    by simp
  from t have b: "update_startpos [?rd\<lparr>r_start := 90\<rparr>] (update_insertions ?ins)
                    = [?rd\<lparr>r_start := 95\<rparr>]"
    by blast
  show ?thesis
    using h a b by simp
qed

subsection \<open>Error monad\<close>

lemma bindE_Inr_iff: "bindE m f = Inr y \<longleftrightarrow> (\<exists>x. m = Inr x \<and> f x = Inr y)"
  by (cases m) (auto simp: bindE_def)

lemma mapE_Inr:
  "mapE f xs = Inr ys \<Longrightarrow> length ys = length xs \<and> (\<forall>i<length xs. f (xs ! i) = Inr (ys ! i))"
proof (induction xs arbitrary: ys)
  case Nil
  then show ?case by simp
next
  case (Cons x xs)
  from Cons.prems obtain y ys' where y: "f x = Inr y" and ys': "mapE f xs = Inr ys'"
    and ys: "ys = y # ys'"
    by (auto simp: bindE_Inr_iff)
  from Cons.IH[OF ys'] have IH: "length ys' = length xs" "\<forall>i<length xs. f (xs ! i) = Inr (ys' ! i)"
    by auto
  show ?case
  proof (intro conjI allI impI)
    show "length ys = length (x # xs)" using ys IH(1) by simp
  next
    fix i assume "i < length (x # xs)"
    then show "f ((x # xs) ! i) = Inr (ys ! i)"
      using y ys IH(2) by (cases i) auto
  qed
qed

lemma mapE_total:
  "(\<forall>x \<in> set xs. \<exists>y. f x = Inr y) \<Longrightarrow> \<exists>ys. mapE f xs = Inr ys"
  by (induction xs) (auto simp: bindE_def)

subsection \<open>Quality repair\<close>

text \<open>
  Claim C3, evaluated on the code. A column of five reads that all carry the quality 30
  (no gap placeholder among them) and the mapping quality 40 has every quality replaced
  by 40/4 = 10: the first branch of the repair is taken whenever all qualities of the
  column are equal, not only when all of them are the placeholder. The scenario of the
  claim does hold: with one placeholder among five qualities 20 the placeholder becomes
  their mean 20 and the five numbers stay.
\<close>

theorem repair_qualities_equal_qualities:
  "repair_qualities [QNum 30, QNum 30, QNum 30, QNum 30, QNum 30] [40, 40, 40, 40, 40]
     = Inr [QNum 10, QNum 10, QNum 10, QNum 10, QNum 10]
   \<and> repair_qualities [QNum 20, QGap, QNum 20, QNum 20, QNum 20, QNum 20]
        [60, 60, 60, 60, 60, 60]
     = Inr [QNum 20, QNum 20, QNum 20, QNum 20, QNum 20, QNum 20]"
  by (simp add: repair_qualities_def quality_numbers_def)

subsection \<open>Genotype Resolver\<close>




subsection \<open>Viterbi Decoder: structure of the two passes\<close>

lemma bindE_Inl_iff: "bindE m f = Inl e \<longleftrightarrow> (m = Inl e \<or> (\<exists>x. m = Inr x \<and> f x = Inl e))"
  by (cases m) (auto simp: bindE_def)

lemma bindE_simps [simp]: "bindE (Inl e) f = Inl e" "bindE (Inr x) f = f x"
  by (simp_all add: bindE_def)

lemma same_shape_simps [simp]:
  "same_shape Sentinel Sentinel" "same_shape (Col a) (Col b)"
  "\<not> same_shape Sentinel (Col b)" "\<not> same_shape (Col a) Sentinel"
  by (simp_all add: same_shape_def)

lemma forward_extends:
  "forward tm ip p delta cols = Inr r \<Longrightarrow>
     \<exists>s. r = delta @ s \<and> list_all2 same_shape cols s"
proof (induction cols arbitrary: p delta r)
  case Nil
  then show ?case by simp
next
  case (Cons c cols)
  show ?case
  proof (cases c)
    case Sentinel
    with Cons.prems have "forward tm ip (Some Sentinel) (delta @ [Sentinel]) cols = Inr r" by simp
    from Cons.IH[OF this] obtain s where "r = (delta @ [Sentinel]) @ s" "list_all2 same_shape cols s"
      by blast
    then show ?thesis using Sentinel by (intro exI[of _ "Sentinel # s"]) simp
  next
    case (Col e)
    from Cons.prems Col obtain d where "forward tm ip (Some (Col e)) (delta @ [Col d]) cols = Inr r"
      by (auto simp: bindE_Inr_iff split: if_splits col.splits)
    from Cons.IH[OF this] obtain s where "r = (delta @ [Col d]) @ s" "list_all2 same_shape cols s"
      by blast
    then show ?thesis using Col by (intro exI[of _ "Col d # s"]) simp
  qed
qed

lemma backtrack_extends:
  "backtrack tm cols xt = Inr r \<Longrightarrow> \<exists>zs. r = xt @ zs \<and> length zs = length cols"
proof (induction cols arbitrary: xt r)
  case Nil
  then show ?case by simp
next
  case (Cons c cols)
  show ?case
  proof (cases c)
    case Sentinel
    with Cons.prems have "backtrack tm cols (xt @ [- 1]) = Inr r" by simp
    from Cons.IH[OF this] show ?thesis by auto
  next
    case (Col d)
    from Cons.prems Col obtain t where "backtrack tm cols (xt @ [int t]) = Inr r"
      by (auto simp: bindE_Inr_iff)
    from Cons.IH[OF this] show ?thesis by auto
  qed
qed

lemma backtrack_final_data_column:
  "xt \<noteq> [] \<Longrightarrow> backtrack tm [Col d] xt = Inl IndexError"
  by (simp add: backtrack_step_def)

lemma backtrack_data_last_fails:
  "xt \<noteq> [] \<or> ds \<noteq> [] \<Longrightarrow> \<exists>e. backtrack tm (ds @ [Col d]) xt = Inl e"
proof (induction ds arbitrary: xt)
  case Nil
  then show ?case by (simp add: backtrack_step_def)
next
  case (Cons c ds)
  show ?case
  proof (cases c)
    case Sentinel
    then show ?thesis using Cons.IH[of "xt @ [- 1]"] by simp
  next
    case (Col d')
    show ?thesis
    proof (cases "backtrack_step tm d' (ds @ [Col d]) xt")
      case (Inl e)
      then show ?thesis using Col by simp
    next
      case (Inr t)
      then show ?thesis using Col Cons.IH[of "xt @ [int t]"] by simp
    qed
  qed
qed

lemma viterbi_data_first_fails:
  assumes "rest \<noteq> []"
  shows "\<exists>e. viterbi (Col c # rest) tm = Inl e"
proof (cases "idx tm 0")
  case (Inl e)
  then show ?thesis by (simp add: viterbi_def)
next
  case (Inr ip)
  show ?thesis
  proof (cases "forward tm ip None [] (map nan_to_ninf (Col c # rest))")
    case (Inl e)
    then show ?thesis using Inr by (simp add: viterbi_def)
  next
    case (Inr delta)
    from forward_extends[OF Inr] obtain s where
      s: "delta = s" "list_all2 same_shape (map nan_to_ninf (Col c # rest)) s"
      by auto
    then obtain d0 srest where d: "delta = d0 # srest" "same_shape (nan_to_ninf (Col c)) d0"
      "length srest = length rest"
      by (cases s) (auto dest: list_all2_lengthD)
    then obtain d where d0: "d0 = Col d"
      by (cases d0) (auto simp: nan_to_ninf_def)
    have "srest \<noteq> []" using d(3) assms by auto
    then have "\<exists>e. backtrack tm (rev srest @ [Col d]) [] = Inl e"
      by (intro backtrack_data_last_fails) simp
    then show ?thesis
      using \<open>idx tm 0 = Inr ip\<close> Inr d(1) d0 by (auto simp: viterbi_def)
  qed
qed

subsection \<open>Viterbi Decoder: the first column\<close>

lemma fold_fl_add_replicate:
  "((\<lambda>s. fl_add s (Fin a)) ^^ n) (Fin b) = Fin (b + real n * a)"
  by (induction n) (simp_all add: algebra_simps)

lemma fl_sum_replicate: "fl_sum (replicate n (Fin a)) = Fin (real n * a)"
  by (simp add: fl_sum_def fold_fl_add_replicate)

lemma fold_max_NaN: "fold (\<lambda>y m. fl_max2 m y) xs NaN = NaN"
  by (induction xs) (simp_all add: fl_max2_def)

lemma index_from_NaN: "index_from NaN xs k = Inl ValueError"
  by (induction xs arbitrary: k) (simp_all add: fl_eq_def)

lemma argmax_index_NaN: "argmax_index (NaN # xs) = Inl ValueError"
  by (simp add: argmax_index_def fold_max_NaN index_from_NaN fl_eq_def)

lemma argmax_index_replicate_NaN: "argmax_index (replicate 30 NaN) = Inl ValueError"
  using argmax_index_NaN[of "replicate 29 NaN"] by (simp add: eval_nat_numeral)

lemma init_uniform_zero:
  "init_column (replicate 30 (Fin (1 / 30))) (replicate 30 (Fin 0)) = Inr (replicate 30 (Fin (1 / 30)))"
  by (simp add: init_column_def fl_sum_replicate Let_def)

lemma init_uniform_ninf:
  "init_column (replicate 30 (Fin (1 / 30))) (replicate 30 NInf) = Inr (replicate 30 NaN)"
  by (simp add: init_column_def fl_sum_replicate Let_def signed_inf_def)

text \<open>
  Claim C9 as stated fails. The emission matrix below has three columns and its first
  column is a thirty-vector, yet the run does not end in an out-of-range access: the last
  column has no defined entry, its forward vector is thirty times not-a-number, and the
  first step of the backtracking raises \<open>ValueError\<close> when it looks the maximum up in
  that vector.
\<close>

theorem viterbi_undefined_column_counterexample:
  "viterbi [Col (replicate 30 (EVal (Fin 0))), Sentinel, Col (replicate 30 ENaN)]
      (replicate 30 (replicate 30 (Fin (1 / 30)))) = Inl ValueError
   \<and> viterbi [Col (replicate 30 (EVal (Fin 0))), Sentinel, Col (replicate 30 ENaN)]
      (replicate 30 (replicate 30 (Fin (1 / 30)))) \<noteq> Inl IndexError"
proof -
  have "viterbi [Col (replicate 30 (EVal (Fin 0))), Sentinel, Col (replicate 30 ENaN)]
      (replicate 30 (replicate 30 (Fin (1 / 30)))) = Inl ValueError"
    by (simp add: viterbi_def idx_def nan_to_ninf_def init_uniform_zero init_uniform_ninf
        backtrack_step_def argmax_index_replicate_NaN)
  then show ?thesis by simp
qed

lemma fold_max_replicate:
  "((\<lambda>m. fl_max2 m (Fin a)) ^^ n) (Fin a) = Fin a"
  by (induction n) (simp_all add: fl_max2_def)

lemma argmax_index_replicate_Fin: "argmax_index (replicate 30 (Fin a)) = Inr 0"
proof -
  have "argmax_index (Fin a # replicate 29 (Fin a)) = Inr 0"
    by (simp add: argmax_index_def fold_max_replicate fl_eq_def)
  then show ?thesis by (simp add: eval_nat_numeral)
qed

text \<open>
  Claim C9, amended. For every emission matrix with at least two columns whose first
  column is a data column, and every transition matrix, the decoder returns no path: it
  raises. The step of the backtracking pass at the final reversed index (any index but
  the first, so \<open>xtilde\<close> is not empty) on a data column reads \<^verbatim>\<open>delta[i+1]\<close> out of
  range and raises \<open>IndexError\<close>; an earlier step can raise first. When the column at
  the final reversed index is the sentinel, that step appends the sentinel and reads
  nothing.
\<close>

theorem viterbi_first_column_data:
  assumes "rest \<noteq> []"
  shows "(\<exists>e. viterbi (Col c # rest) tm = Inl e)
       \<and> (\<forall>d xtilde. xtilde \<noteq> [] \<longrightarrow> backtrack tm [Col d] xtilde = Inl IndexError)
       \<and> (\<forall>xtilde. backtrack tm [Sentinel] xtilde = Inr (xtilde @ [- 1]))"
  using viterbi_data_first_fails[OF assms, of c tm] by (simp add: backtrack_step_def)

text \<open>
  The theorem at a data column followed by a sentinel, with the uniform transition
  matrix; the same two columns in the other order decode to a path.
\<close>

theorem viterbi_first_column_data_witness:
  "[Sentinel :: eentry col] \<noteq> []
   \<and> viterbi [Col (replicate 30 (EVal (Fin 0))), Sentinel]
        (replicate 30 (replicate 30 (Fin (1 / 30)))) = Inl IndexError
   \<and> viterbi [Sentinel, Col (replicate 30 (EVal (Fin 0)))]
        (replicate 30 (replicate 30 (Fin (1 / 30)))) = Inr [- 1, 0]"
proof -
  have h: "[Sentinel :: eentry col] \<noteq> []" by simp
  have a: "viterbi [Col (replicate 30 (EVal (Fin 0))), Sentinel]
        (replicate 30 (replicate 30 (Fin (1 / 30)))) = Inl IndexError"
    by (simp add: viterbi_def idx_def nan_to_ninf_def init_uniform_zero backtrack_step_def)
  have b: "viterbi [Sentinel, Col (replicate 30 (EVal (Fin 0)))]
        (replicate 30 (replicate 30 (Fin (1 / 30)))) = Inr [- 1, 0]"
    by (simp add: viterbi_def idx_def nan_to_ninf_def init_uniform_zero backtrack_step_def
        argmax_index_replicate_Fin)
  show ?thesis
    using h a b viterbi_first_column_data[OF h, of "replicate 30 (EVal (Fin 0))"
        "replicate 30 (replicate 30 (Fin (1 / 30)))"]
    by simp
qed

subsection \<open>Variant Formatter: the two implementations\<close>

lemma string_of_nat_0: "string_of_nat 0 = ''0''"
  by (simp add: string_of_nat.simps)


lemma quiet_steps_agree:
  assumes "list_all quiet xtilde"
  shows "variant_step ref upd_ref bs xtilde i st = variant_step2 ref upd_ref bs xtilde i st"
proof (cases st)
  case (fields gc v vl)
  show ?thesis
  proof (cases "i + gc < length xtilde")
    case True
    then have "quiet (xtilde ! (i + gc))" using assms by (simp add: list_all_length)
    then show ?thesis using True fields
      by (simp add: variant_step_def variant_step2_def idx_def quiet_def)
  next
    case False
    then show ?thesis using fields by (simp add: variant_step_def variant_step2_def idx_def)
  qed
qed

lemma foldE_cong_steps: "(\<And>i st. f i st = g i st) \<Longrightarrow> foldE f xs st = foldE g xs st"
  by (induction xs arbitrary: st) (auto simp: bindE_def split: sum.splits)

lemma quiet_step_keeps:
  assumes "list_all quiet xtilde" "variant_step ref upd_ref bs xtilde i (gc, v, vl) = Inr (gc', v', vl')"
  shows "vl' = vl"
proof -
  from assms(2) have lt: "i + gc < length xtilde"
    by (auto simp: variant_step_def idx_def bindE_Inr_iff split: if_splits)
  then have "quiet (xtilde ! (i + gc))" using assms(1) by (simp add: list_all_length)
  then show ?thesis using assms(2) lt
    by (auto simp: variant_step_def idx_def bindE_Inr_iff quiet_def split: if_splits)
qed

lemma quiet_fold_keeps:
  assumes "list_all quiet xtilde"
  shows "foldE (variant_step ref upd_ref bs xtilde) is (gc, v, vl) = Inr (gc', v', vl') \<Longrightarrow> vl' = vl"
proof (induction "is" arbitrary: gc v vl)
  case Nil
  then show ?case by simp
next
  case (Cons i "is")
  from Cons.prems obtain st where st: "variant_step ref upd_ref bs xtilde i (gc, v, vl) = Inr st"
    and rest: "foldE (variant_step ref upd_ref bs xtilde) is st = Inr (gc', v', vl')"
    by (auto simp: bindE_Inr_iff)
  obtain gc1 v1 vl1 where st1: "st = (gc1, v1, vl1)" by (cases st) auto
  have "vl1 = vl" using quiet_step_keeps[OF assms st[unfolded st1]] .
  then show ?case using Cons.IH[OF rest[unfolded st1]] by simp
qed



subsection \<open>Viterbi Decoder: the forward step\<close>

lemma map_upt_nth: "map (\<lambda>i. f (xs ! i)) [0 ..< length xs] = map f xs"
  by (rule nth_equalityI) auto

lemma map_upt_nth2:
  "length xs = n \<Longrightarrow> length ys = n \<Longrightarrow>
     map (\<lambda>z. g (xs ! z) (ys ! z)) [0 ..< n] = map (\<lambda>(x, y). g x y) (zip xs ys)"
  by (rule nth_equalityI) auto

lemma mapE_const: "(\<And>x. x \<in> set xs \<Longrightarrow> f x = Inr c) \<Longrightarrow> mapE f xs = Inr (replicate (length xs) c)"
  by (induction xs) auto

lemma upt_30_Suc: "[0 ..< 30] = 0 # map Suc [0 ..< 29]"
  by (simp add: upt_rec[of 0 30] map_Suc_upt)

lemma mapE_map: "mapE f (map g xs) = mapE (\<lambda>x. f (g x)) xs"
  by (induction xs) auto

lemma np_max_head_Fin:
  "np_max (Fin a # replicate n (Fin a)) = Inr (Fin a)"
  by (simp add: fold_max_replicate)

lemma fold_max_zero: "0 \<le> a \<Longrightarrow> ((\<lambda>m. fl_max2 m (Fin 0)) ^^ n) (Fin a) = Fin a"
  by (induction n) (simp_all add: fl_max2_def)

lemma np_max_head_zero: "0 \<le> a \<Longrightarrow> np_max (Fin a # replicate n (Fin 0)) = Inr (Fin a)"
  by (simp add: fold_max_zero)

lemma fold_max_ninf: "((\<lambda>m. fl_max2 m NInf) ^^ n) (Fin a) = Fin a"
  by (induction n) (simp_all add: fl_max2_def)

lemma fold_add_zero: "((\<lambda>s. fl_add s (Fin 0)) ^^ n) (Fin b) = Fin b"
  by (induction n) simp_all

lemma logsumexp_head:
  "logsumexp (Fin a # replicate n NInf) = Inr (Fin a)"
  by (simp add: logsumexp_def fold_max_ninf fl_sub_def fl_sum_def fold_add_zero Let_def)

lemma logsumexp_const:
  "logsumexp (replicate 30 (Fin a)) = Inr (Fin (ln 30 + a))"
proof -
  have "logsumexp (Fin a # replicate 29 (Fin a)) = Inr (Fin (ln 30 + a))"
    by (simp add: logsumexp_def fold_max_replicate fl_sub_def fl_sum_def
        fold_fl_add_replicate Let_def)
  then show ?thesis by (simp add: eval_nat_numeral)
qed

lemma rep30: "replicate 30 x = x # replicate 29 x"
  by (simp add: eval_nat_numeral)

lemma init_sink:
  "init_column sink_start (replicate 30 (Fin 0)) = Inr sink_start"
  by (simp add: init_column_def sink_start_def rep30 fl_sum_def fold_add_zero Let_def)

lemma sink_row:
  assumes "y < 30"
  shows "map (\<lambda>z. fl_mul (sink_tm ! y ! z) (sink_start ! z)) [0 ..< 30] = sink_start"
proof -
  have "sink_tm ! y = sink_start" using assms by (simp add: sink_tm_def sink_start_def)
  then have "map (\<lambda>z. fl_mul (sink_tm ! y ! z) (sink_start ! z)) [0 ..< 30]
           = map (\<lambda>(x, y). fl_mul x y) (zip sink_start sink_start)"
    using map_upt_nth2[of sink_start 30 sink_start fl_mul] by (simp add: sink_start_def)
  then show ?thesis by (simp add: sink_start_def)
qed

lemma sink_rows:
  "map (\<lambda>y. map (\<lambda>z. fl_mul (sink_tm ! y ! z) (sink_start ! z)) [0 ..< 30]) [0 ..< 30]
     = replicate 30 sink_start"
proof -
  have "map (\<lambda>y. map (\<lambda>z. fl_mul (sink_tm ! y ! z) (sink_start ! z)) [0 ..< 30]) [0 ..< 30]
      = map (\<lambda>y. sink_start) [0 ..< 30]"
    by (rule map_cong) (simp_all add: sink_row)
  then show ?thesis by (simp add: map_replicate_const)
qed

lemma step_sink:
  "step_column sink_tm sink_start (replicate 30 (Fin 0)) = Inr (replicate 30 (Fin (exp (- ln 30))))"
proof -
  have shape: "\<not> (length sink_start < 30 \<or> length sink_tm < 30
         \<or> list_ex (\<lambda>row. length row < 30) (take 30 sink_tm)
         \<or> length (replicate 30 (Fin 0)) < 30)"
    by (simp add: sink_start_def sink_tm_def list_ex_iff)
  have m1: "np_max sink_start = Inr (Fin 1)"
    unfolding sink_start_def by (rule np_max_head_zero) simp
  have "mapE np_max (replicate 30 sink_start) = Inr (replicate (length (replicate 30 sink_start)) (Fin 1))"
    by (rule mapE_const) (use m1 in auto)
  then have maxima: "mapE np_max (replicate 30 sink_start) = Inr (replicate 30 (Fin 1))"
    by simp
  have emmi: "map (\<lambda>y. fl_add (map fl_log (replicate 30 (Fin 1)) ! y) (replicate 30 (Fin 0) ! y)) [0 ..< 30]
        = replicate 30 (Fin 0)"
    using map_upt_nth2[of "map fl_log (replicate 30 (Fin 1))" 30 "replicate 30 (Fin 0)" fl_add]
    by simp
  show ?thesis
    unfolding step_column_def using shape
    by (simp only: if_False sink_rows maxima bindE_simps Let_def emmi logsumexp_const)
       (simp add: fl_sub_def)
qed

lemma sink_column:
  assumes "j < 30"
  shows "map (\<lambda>i. fl_mul (sink_tm ! i ! j) (sink_start ! i)) [0 ..< 30]
           = map (fl_mul (sink_start ! j)) sink_start"
proof -
  have "map (\<lambda>i. fl_mul (sink_tm ! i ! j) (sink_start ! i)) [0 ..< 30]
      = map (\<lambda>i. fl_mul (sink_start ! j) (sink_start ! i)) [0 ..< 30]"
    by (rule map_cong) (simp_all add: sink_tm_def sink_start_def)
  also have "\<dots> = map (fl_mul (sink_start ! j)) sink_start"
    using map_upt_nth[of "fl_mul (sink_start ! j)" sink_start] by (simp add: sink_start_def)
  finally show ?thesis .
qed

lemma sink_column_max_0:
  "np_max (map (\<lambda>i. fl_mul (sink_tm ! i ! 0) (sink_start ! i)) [0 ..< 30]) = Inr (Fin 1)"
  unfolding sink_column[of 0, simplified]
  by (simp add: sink_start_def fold_max_zero)

lemma sink_column_max_Suc:
  assumes "k < 29"
  shows "np_max (map (\<lambda>i. fl_mul (sink_tm ! i ! Suc k) (sink_start ! i)) [0 ..< 30]) = Inr (Fin 0)"
proof -
  have "Suc k < 30" using assms by simp
  from sink_column[OF this] show ?thesis
    using assms by (simp add: sink_start_def fold_max_zero)
qed

lemma mapE_upt_30:
  "mapE f [0 ..< 30]
     = bindE (f 0) (\<lambda>y. bindE (mapE (\<lambda>k. f (Suc k)) [0 ..< 29]) (\<lambda>ys. Inr (y # ys)))"
  by (simp only: upt_30_Suc mapE.simps mapE_map)

lemma sink_maxima:
  "mapE (\<lambda>j. np_max (map (\<lambda>i. fl_mul (sink_tm ! i ! j) (sink_start ! i)) [0 ..< 30])) [0 ..< 30]
     = Inr sink_start"
proof -
  have "mapE (\<lambda>k. np_max (map (\<lambda>i. fl_mul (sink_tm ! i ! Suc k) (sink_start ! i)) [0 ..< 30])) [0 ..< 29]
      = Inr (replicate (length [0 ..< 29]) (Fin 0))"
    by (rule mapE_const) (simp add: sink_column_max_Suc)
  then have r: "mapE (\<lambda>k. np_max (map (\<lambda>i. fl_mul (sink_tm ! i ! Suc k) (sink_start ! i)) [0 ..< 30])) [0 ..< 29]
      = Inr (replicate 29 (Fin 0))"
    by simp
  show ?thesis
    apply (subst mapE_upt_30)
    apply (simp only: sink_column_max_0 r bindE_simps)
    apply (simp add: sink_start_def)
    done
qed

lemma spec_sink_claimed:
  "spec_forward_column (\<lambda>i j. sink_tm ! i ! j) sink_start (replicate 30 (Fin 0)) = Inr sink_start"
proof -
  have emmi: "map (\<lambda>j. fl_add (fl_log (sink_start ! j)) (replicate 30 (Fin 0) ! j)) [0 ..< 30]
        = Fin 0 # replicate 29 NInf"
    using map_upt_nth2[of sink_start 30 "replicate 30 (Fin 0)" "\<lambda>x y. fl_add (fl_log x) y"]
    by (simp add: sink_start_def rep30)
  show ?thesis
    unfolding spec_forward_column_def
    by (simp only: sink_maxima bindE_simps Let_def emmi logsumexp_head)
       (simp add: fl_sub_def sink_start_def)
qed

lemma step_column_is_spec:
  assumes "30 \<le> length prev" "30 \<le> length tm" "list_all (\<lambda>row. 30 \<le> length row) (take 30 tm)"
    "30 \<le> length e"
  shows "step_column tm prev e = spec_forward_column (\<lambda>i j. tm ! j ! i) prev e"
proof -
  have shape: "\<not> (length prev < 30 \<or> length tm < 30
         \<or> list_ex (\<lambda>row. length row < 30) (take 30 tm) \<or> length e < 30)"
    using assms by (auto simp: list_all_iff list_ex_iff)
  let ?rows = "map (\<lambda>y. map (\<lambda>z. fl_mul (tm ! y ! z) (prev ! z)) [0 ..< 30]) [0 ..< 30]"
  have m: "mapE np_max ?rows
         = mapE (\<lambda>j. np_max (map (\<lambda>i. fl_mul (tm ! j ! i) (prev ! i)) [0 ..< 30])) [0 ..< 30]"
    by (simp add: mapE_map)
  show ?thesis
  proof (cases "mapE np_max ?rows")
    case (Inl err)
    then show ?thesis using shape m by (simp add: step_column_def spec_forward_column_def)
  next
    case (Inr ml)
    from mapE_Inr[OF Inr] have len: "length ml = 30" by simp
    have eq: "map (\<lambda>y. fl_add (map fl_log ml ! y) (e ! y)) [0 ..< 30]
        = map (\<lambda>j. fl_add (fl_log (ml ! j)) (e ! j)) [0 ..< 30]"
      by (rule map_cong) (simp_all add: len)
    have s1: "step_column tm prev e =
        bindE (logsumexp (map (\<lambda>y. fl_add (map fl_log ml ! y) (e ! y)) [0 ..< 30]))
          (\<lambda>den. Inr (map (\<lambda>x. fl_exp (fl_sub x den))
                         (map (\<lambda>y. fl_add (map fl_log ml ! y) (e ! y)) [0 ..< 30])))"
      using shape by (simp add: step_column_def Inr Let_def)
    have s2: "spec_forward_column (\<lambda>i j. tm ! j ! i) prev e =
        bindE (logsumexp (map (\<lambda>j. fl_add (fl_log (ml ! j)) (e ! j)) [0 ..< 30]))
          (\<lambda>den. Inr (map (\<lambda>x. fl_exp (fl_sub x den))
                         (map (\<lambda>j. fl_add (fl_log (ml ! j)) (e ! j)) [0 ..< 30])))"
      unfolding spec_forward_column_def m[symmetric] Inr by (simp add: Let_def)
    show ?thesis unfolding s1 s2 eq ..
  qed
qed

lemma step_column_Inr_spec:
  assumes "step_column tm prev e = Inr d"
  shows "spec_forward_column (\<lambda>i j. tm ! j ! i) prev e = Inr d"
proof -
  from assms have "\<not> (length prev < 30 \<or> length tm < 30
         \<or> list_ex (\<lambda>row. length row < 30) (take 30 tm) \<or> length e < 30)"
    by (auto simp: step_column_def split: if_splits)
  then have "30 \<le> length prev" "30 \<le> length tm" "list_all (\<lambda>row. 30 \<le> length row) (take 30 tm)"
    "30 \<le> length e"
    by (auto simp: list_all_iff list_ex_iff not_less)
  from step_column_is_spec[OF this] assms show ?thesis by simp
qed

lemma forward_step_at:
  assumes "forward tm ip p delta cols = Inr r" "k < length cols" "cols ! k = Col e"
    "if k = 0 then (\<exists>e'. p = Some (Col e')) \<and> delta \<noteq> [] else (\<exists>e'. cols ! (k - 1) = Col e')"
  shows "\<exists>prev d. r ! (length delta + k - 1) = Col prev \<and> r ! (length delta + k) = Col d
           \<and> step_column tm prev e = Inr d"
  using assms
proof (induction cols arbitrary: p delta k)
  case Nil
  then show ?case by simp
next
  case (Cons c cols)
  show ?case
  proof (cases k)
    case 0
    with Cons.prems obtain e' where c: "c = Col e" and p: "p = Some (Col e')" and ne: "delta \<noteq> []"
      by auto
    from Cons.prems(1) c p obtain prev d where
      prev: "last delta = Col prev" and d: "step_column tm prev e = Inr d"
      and rest: "forward tm ip (Some (Col e)) (delta @ [Col d]) cols = Inr r"
      by (auto simp: bindE_Inr_iff split: col.splits)
    from forward_extends[OF rest] obtain s where r: "r = (delta @ [Col d]) @ s" by blast
    have "r ! (length delta - 1) = last delta"
      using ne r by (simp add: nth_append last_conv_nth)
    moreover have "r ! length delta = Col d" using r by (simp add: nth_append)
    ultimately show ?thesis using 0 prev d by auto
  next
    case (Suc k')
    obtain x p' where rest: "forward tm ip p' (delta @ [x]) cols = Inr r" and p': "p' = Some c"
      using Cons.prems(1)
      by (cases c) (auto simp: bindE_Inr_iff split: if_splits col.splits)
    have k': "k' < length cols" "cols ! k' = Col e" using Cons.prems(2,3) Suc by auto
    have cond: "if k' = 0 then (\<exists>e'. p' = Some (Col e')) \<and> delta @ [x] \<noteq> []
                else (\<exists>e'. cols ! (k' - 1) = Col e')"
      using Cons.prems(4) Suc p' by (cases k') auto
    from Cons.IH[OF rest k' cond] show ?thesis using Suc by simp
  qed
qed


lemma forward_sink:
  "forward sink_tm sink_start None []
     (map nan_to_ninf [Sentinel, Col (replicate 30 (EVal (Fin 0))), Col (replicate 30 (EVal (Fin 0)))])
   = Inr [Sentinel, Col sink_start, Col (replicate 30 (Fin (exp (- ln 30))))]"
  by (simp add: nan_to_ninf_def init_sink step_sink)



subsection \<open>Viterbi Decoder: segments\<close>

lemma forward_append:
  "forward tm ip p delta (c1 @ c2)
     = bindE (forward tm ip p delta c1)
         (\<lambda>d. forward tm ip (if c1 = [] then p else Some (last c1)) d c2)"
proof (induction c1 arbitrary: p delta)
  case Nil
  then show ?case by simp
next
  case (Cons c c1)
  show ?case
  proof (cases c)
    case Sentinel
    then show ?thesis using Cons.IH[of "Some Sentinel" "delta @ [Sentinel]"] by simp
  next
    case (Col e)
    have IH: "\<And>d. forward tm ip (Some (Col e)) (delta @ [Col d]) (c1 @ c2)
        = bindE (forward tm ip (Some (Col e)) (delta @ [Col d]) c1)
            (\<lambda>d'. forward tm ip (if c1 = [] then Some (Col e) else Some (last c1)) d' c2)"
      by (rule Cons.IH)
    show ?thesis
      using Col IH by (auto simp: bindE_def split: sum.splits col.splits)
  qed
qed

lemma forward_last_only:
  "forward tm ip p (delta @ [x]) cs = Inr r \<Longrightarrow>
     \<exists>s. r = delta @ [x] @ s \<and> (\<forall>delta'. forward tm ip p (delta' @ [x]) cs = Inr (delta' @ [x] @ s))"
proof (induction cs arbitrary: p delta x r)
  case Nil
  then show ?case by simp
next
  case (Cons c cs)
  show ?case
  proof (cases c)
    case Sentinel
    with Cons.prems have "forward tm ip (Some Sentinel) ((delta @ [x]) @ [Sentinel]) cs = Inr r"
      by simp
    from Cons.IH[OF this] obtain s where s: "r = (delta @ [x]) @ [Sentinel] @ s"
      "\<forall>delta'. forward tm ip (Some Sentinel) (delta' @ [Sentinel]) cs = Inr (delta' @ [Sentinel] @ s)"
      by blast
    have "\<forall>delta'. forward tm ip p (delta' @ [x]) (c # cs) = Inr (delta' @ [x] @ (Sentinel # s))"
      using s(2) Sentinel by (auto dest: spec[of _ "_ @ [x]"])
    then show ?thesis using s(1) by (intro exI[of _ "Sentinel # s"]) simp
  next
    case (Col e)
    from Cons.prems Col obtain d where
      rest: "forward tm ip (Some (Col e)) ((delta @ [x]) @ [Col d]) cs = Inr r"
      and d: "(if p = None \<or> p = Some Sentinel then init_column ip e
               else (case x of Sentinel \<Rightarrow> Inl TypeError | Col prev \<Rightarrow> step_column tm prev e)) = Inr d"
      by (auto simp: bindE_Inr_iff split: if_splits col.splits)
    from Cons.IH[OF rest] obtain s where s: "r = (delta @ [x]) @ [Col d] @ s"
      "\<forall>delta'. forward tm ip (Some (Col e)) (delta' @ [Col d]) cs = Inr (delta' @ [Col d] @ s)"
      by blast
    have "\<forall>delta'. forward tm ip p (delta' @ [x]) (c # cs) = Inr (delta' @ [x] @ (Col d # s))"
    proof
      fix delta'
      from s(2) have "forward tm ip (Some (Col e)) ((delta' @ [x]) @ [Col d]) cs
                        = Inr ((delta' @ [x]) @ [Col d] @ s)"
        by blast
      then show "forward tm ip p (delta' @ [x]) (c # cs) = Inr (delta' @ [x] @ (Col d # s))"
        using d Col by (auto split: if_splits col.splits)
    qed
    then show ?thesis using s(1) by (intro exI[of _ "Col d # s"]) simp
  qed
qed

lemma backtrack_step_hd:
  "rest \<noteq> [] \<Longrightarrow> rest' \<noteq> [] \<Longrightarrow> hd rest = hd rest' \<Longrightarrow>
     backtrack_step tm d rest xt = backtrack_step tm d rest' xt"
  by (cases rest; cases rest') (auto simp: backtrack_step_def)

lemma backtrack_step_last:
  "xt \<noteq> [] \<Longrightarrow> xt' \<noteq> [] \<Longrightarrow> last xt = last xt' \<Longrightarrow>
     backtrack_step tm d rest xt = backtrack_step tm d rest xt'"
  by (simp add: backtrack_step_def split: list.splits)

lemma backtrack_split:
  "backtrack tm (c1 @ Sentinel # c2) xt
     = bindE (backtrack tm (c1 @ [Sentinel]) xt) (\<lambda>xt'. backtrack tm c2 xt')"
proof (induction c1 arbitrary: xt)
  case Nil
  then show ?case by simp
next
  case (Cons c c1)
  show ?case
  proof (cases c)
    case Sentinel
    then show ?thesis using Cons.IH by simp
  next
    case (Col d)
    have "backtrack_step tm d (c1 @ Sentinel # c2) xt = backtrack_step tm d (c1 @ [Sentinel]) xt"
      by (rule backtrack_step_hd) (cases c1; simp)+
    then show ?thesis
      using Col Cons.IH by (auto simp: bindE_def split: sum.splits)
  qed
qed

lemma backtrack_last_only:
  "xa \<noteq> [] \<Longrightarrow> xa' \<noteq> [] \<Longrightarrow> last xa = last xa' \<Longrightarrow>
   backtrack tm cols xa = Inr r \<Longrightarrow> backtrack tm cols xa' = Inr r' \<Longrightarrow>
     \<exists>zs. r = xa @ zs \<and> r' = xa' @ zs \<and> length zs = length cols"
proof (induction cols arbitrary: xa xa' r r')
  case Nil
  then show ?case by simp
next
  case (Cons c cols)
  show ?case
  proof (cases c)
    case Sentinel
    with Cons.prems have "backtrack tm cols (xa @ [- 1]) = Inr r" "backtrack tm cols (xa' @ [- 1]) = Inr r'"
      by simp_all
    from Cons.IH[OF _ _ _ this] obtain zs where
      "r = (xa @ [- 1]) @ zs" "r' = (xa' @ [- 1]) @ zs" "length zs = length cols"
      by auto
    then show ?thesis by (intro exI[of _ "- 1 # zs"]) simp
  next
    case (Col d)
    have same: "backtrack_step tm d cols xa = backtrack_step tm d cols xa'"
      using Cons.prems(1-3) by (rule backtrack_step_last)
    from Cons.prems(4) Col obtain t where t: "backtrack_step tm d cols xa = Inr t"
      and r: "backtrack tm cols (xa @ [int t]) = Inr r"
      by (auto simp: bindE_Inr_iff)
    have t': "backtrack_step tm d cols xa' = Inr t" using same t by simp
    from Cons.prems(5) Col have r': "backtrack tm cols (xa' @ [int t]) = Inr r'"
      by (simp add: t')
    from Cons.IH[OF _ _ _ r r'] obtain zs where
      "r = (xa @ [int t]) @ zs" "r' = (xa' @ [int t]) @ zs" "length zs = length cols"
      by auto
    then show ?thesis by (intro exI[of _ "int t # zs"]) simp
  qed
qed

lemma backtrack_ends_sentinel:
  "backtrack tm (cols @ [Sentinel]) xt = Inr r \<Longrightarrow> r \<noteq> [] \<and> last r = - 1"
proof (induction cols arbitrary: xt)
  case Nil
  then show ?case by auto
next
  case (Cons c cols)
  then show ?case by (cases c) (auto simp: bindE_Inr_iff)
qed

end
